theory Spec2Isabelle
  imports Complex_Main "HOL-Library.Log_Nat"
begin

section \<open>Python and numpy primitives used by the sources\<close>

text \<open>
  The exceptions the two source files can raise: \<^verbatim>\<open>IndexError\<close> from indexing a list
  or an array out of range, \<^verbatim>\<open>ValueError\<close> from \<^verbatim>\<open>list.remove\<close> of an absent element,
  \<^verbatim>\<open>ZeroDivisionError\<close> from a division of Python numbers by zero, and
  \<^verbatim>\<open>AssertionError\<close> from the two \<^verbatim>\<open>assert\<close> statements of \<^verbatim>\<open>fisher_accept2\<close>.
  A function that can raise returns \<open>error + 'a\<close>, with \<open>Inl\<close> the exception.
\<close>

datatype error = IndexError | ValueError | ZeroDivisionError | AssertionError

text \<open>\<^verbatim>\<open>np.arange(0, n+1)\<close>: the integers \<open>0, \<dots>, n\<close>, empty when \<open>n < 0\<close>.\<close>

definition arange :: "int \<Rightarrow> int list" where
  "arange n = [0..n]"

text \<open>
  \<^verbatim>\<open>a[i]\<close> on a list or a one-dimensional array: a negative index counts from the end,
  and an index outside \<open>-len \<dots> len-1\<close> raises \<^verbatim>\<open>IndexError\<close>.
\<close>

definition getitem :: "'a list \<Rightarrow> int \<Rightarrow> error + 'a" where
  "getitem a i =
     (let len = int (length a); j = (if i < 0 then len + i else i)
      in if 0 \<le> j \<and> j < len then Inr (a ! nat j) else Inl IndexError)"

text \<open>
  \<^verbatim>\<open>posout.remove(j)\<close>: removes the first occurrence, raises \<^verbatim>\<open>ValueError\<close> when there
  is none.
\<close>

definition list_remove :: "int list \<Rightarrow> int \<Rightarrow> error + int list" where
  "list_remove l j = (if j \<in> set l then Inr (remove1 j l) else Inl ValueError)"

text \<open>\<^verbatim>\<open>for j in J: posout.remove(j)\<close>.\<close>

fun remove_each :: "int list \<Rightarrow> int list \<Rightarrow> error + int list" where
  "remove_each l [] = Inr l"
| "remove_each l (j # js) =
     (case list_remove l j of Inl e \<Rightarrow> Inl e | Inr l' \<Rightarrow> remove_each l' js)"

section \<open>Floating-point arithmetic\<close>

text \<open>
  The probabilities are floats. A float operation is modelled as the exact operation on
  reals followed by a rounding function \<open>rnd\<close>, a parameter of the model: \<open>exact\<close> is
  arithmetic without rounding error, \<open>double\<close> rounds to the nearest IEEE-754 binary64
  number, ties to even. Comparisons of floats are exact comparisons of their values.
  Infinities and NaN are not represented; \<open>double\<close> covers the normal and subnormal
  range.
\<close>

definition exact :: "real \<Rightarrow> real" where
  "exact x = x"

text \<open>\<open>expo x\<close> is \<open>\<lfloor>log\<^sub>2 \<bar>x\<bar>\<rfloor>\<close> for \<open>x \<noteq> 0\<close>, computed on integers.\<close>

definition expo :: "real \<Rightarrow> int" where
  "expo x = (if 1 \<le> \<bar>x\<bar> then bitlen \<lfloor>\<bar>x\<bar>\<rfloor> - 1 else - bitlen (\<lceil>1 / \<bar>x\<bar>\<rceil> - 1))"

definition round_half_even :: "real \<Rightarrow> int" where
  "round_half_even x =
     (let f = \<lfloor>x\<rfloor>; d = x - of_int f
      in if d < 1 / 2 then f else if 1 / 2 < d then f + 1 else if even f then f else f + 1)"

definition double :: "real \<Rightarrow> real" where
  "double x =
     (if x = 0 then 0
      else let e = max (expo x) (- 1022); ulp = 2 powi (e - 52)
           in of_int (round_half_even (x / ulp)) * ulp)"

section \<open>The hypergeometric probability supplier\<close>

text \<open>
  Modelled from the spec: \<^verbatim>\<open>scipy.stats.hypergeom.pmf(x, N, G, n)\<close> is an external library
  function, not part of the sources. Section 6 of the specification gives its contract:
  \<open>P(X = k) = C(G, k) \<cdot> C(N - G, n - k) / C(N, n)\<close>, as a vector over the outcomes \<open>x\<close>.
  Each value is rounded by \<open>rnd\<close>, so with \<open>double\<close> the supplier returns the correctly
  rounded probabilities. The model is meant for \<open>0 \<le> G \<le> N\<close>, \<open>0 \<le> n \<le> N\<close> and
  outcomes \<open>0 \<le> k \<le> n\<close>.
\<close>

definition hypergeom_pmf :: "(real \<Rightarrow> real) \<Rightarrow> int list \<Rightarrow> int \<Rightarrow> int \<Rightarrow> int \<Rightarrow> real list" where
  "hypergeom_pmf rnd x N G n =
     map (\<lambda>k. rnd (real ((nat G choose nat k) * (nat (N - G) choose nat (n - k)))
                    / real (nat N choose nat n))) x"

section \<open>fisher.py\<close>

text \<open>
  The local variables of \<^verbatim>\<open>fisher_accept\<close> that the loop updates. The field \<open>top_v\<close> is
  the variable \<^verbatim>\<open>top\<close> of the source.
\<close>

record state =
  bottom :: int
  top_v :: int
  J :: "int list"
  p_J :: real
  p_tail :: real
  posout :: "int list"

text \<open>
  The \<^verbatim>\<open>if/elif/else\<close> chain of lines 56 to 73: from the two endpoint masses \<open>pb\<close> and
  \<open>pt\<close> it sets \<open>J\<close> and \<open>p_J\<close> and moves the endpoints.
\<close>

definition select :: "(real \<Rightarrow> real) \<Rightarrow> real \<Rightarrow> real \<Rightarrow> state \<Rightarrow> state" where
  "select rnd pb pt s =
     (if pb < pt then
        s\<lparr>J := [bottom s], p_J := pb, bottom := bottom s + 1\<rparr>
      else if pb > pt then
        s\<lparr>J := [top_v s], p_J := pt, top_v := top_v s - 1\<rparr>
      else if bottom s < top_v s then
        s\<lparr>J := [bottom s, top_v s], p_J := rnd (pb + pt),
          bottom := bottom s + 1, top_v := top_v s - 1\<rparr>
      else
        s\<lparr>J := [bottom s], p_J := pb, bottom := bottom s + 1\<rparr>)"

text \<open>
  One execution of the body of \<^verbatim>\<open>while p_tail < alpha\<close> (lines 54 to 76): read the two
  endpoint masses, choose \<open>J\<close>, add \<open>p_J\<close> to \<open>p_tail\<close>, remove the elements of \<open>J\<close>
  from \<open>posout\<close>.
\<close>

definition body :: "(real \<Rightarrow> real) \<Rightarrow> real list \<Rightarrow> state \<Rightarrow> error + state" where
  "body rnd pmf s =
     (case getitem pmf (bottom s) of Inl e \<Rightarrow> Inl e | Inr pb \<Rightarrow>
      case getitem pmf (top_v s) of Inl e \<Rightarrow> Inl e | Inr pt \<Rightarrow>
      let s1 = select rnd pb pt s;
          s2 = s1\<lparr>p_tail := rnd (p_tail s1 + p_J s1)\<rparr>
      in case remove_each (posout s2) (J s2) of
           Inl e \<Rightarrow> Inl e
         | Inr l \<Rightarrow> Inr (s2\<lparr>posout := l\<rparr>))"

lemma list_remove_length:
  "list_remove l j = Inr l' \<Longrightarrow> length l' < length l"
proof -
  assume "list_remove l j = Inr l'"
  then have mem: "j \<in> set l" and eq: "l' = remove1 j l"
    by (auto simp: list_remove_def split: if_splits)
  from mem have "0 < length l"
    by (cases l) auto
  with mem eq show ?thesis
    by (simp add: length_remove1)
qed

lemma remove_each_length:
  "remove_each l js = Inr l' \<Longrightarrow> length l' \<le> length l"
proof (induction js arbitrary: l)
  case Nil
  then show ?case by simp
next
  case (Cons j js)
  from Cons.prems obtain l1 where a: "list_remove l j = Inr l1"
    and b: "remove_each l1 js = Inr l'"
    by (auto split: sum.splits)
  from list_remove_length [OF a] Cons.IH [OF b] show ?case
    by simp
qed

lemma remove_each_length_less:
  "remove_each l js = Inr l' \<Longrightarrow> js \<noteq> [] \<Longrightarrow> length l' < length l"
proof (cases js)
  case Nil
  assume "js \<noteq> []"
  with Nil show ?thesis by simp
next
  case (Cons j js')
  assume "remove_each l js = Inr l'"
  with Cons obtain l1 where a: "list_remove l j = Inr l1"
    and b: "remove_each l1 js' = Inr l'"
    by (auto split: sum.splits)
  from list_remove_length [OF a] remove_each_length [OF b] show ?thesis
    by simp
qed

lemma select_J: "J (select rnd pb pt s) \<noteq> []"
  by (simp add: select_def)

lemma select_posout: "posout (select rnd pb pt s) = posout s"
  by (simp add: select_def)

lemma body_Inr:
  assumes "body rnd pmf s = Inr s'"
  obtains pb pt l where "getitem pmf (bottom s) = Inr pb"
    and "getitem pmf (top_v s) = Inr pt"
    and "remove_each (posout s) (J (select rnd pb pt s)) = Inr l"
    and "s' = (select rnd pb pt s)
           \<lparr>p_tail := rnd (p_tail s + p_J (select rnd pb pt s)), posout := l\<rparr>"
proof -
  from assms obtain pb pt where pb: "getitem pmf (bottom s) = Inr pb"
    and pt: "getitem pmf (top_v s) = Inr pt"
    by (auto simp: body_def split: sum.splits)
  have tl: "p_tail (select rnd pb pt s) = p_tail s"
    by (simp add: select_def)
  from assms pb pt obtain l
    where l: "remove_each (posout s) (J (select rnd pb pt s)) = Inr l"
      and s': "s' = (select rnd pb pt s)
           \<lparr>p_tail := rnd (p_tail s + p_J (select rnd pb pt s)), posout := l\<rparr>"
    by (auto simp: body_def Let_def select_posout tl split: sum.splits)
  from pb pt l s' that show thesis
    by blast
qed

lemma body_length:
  "body rnd pmf s = Inr s' \<Longrightarrow> length (posout s') < length (posout s)"
proof -
  assume "body rnd pmf s = Inr s'"
  then obtain pb pt l
    where l: "remove_each (posout s) (J (select rnd pb pt s)) = Inr l"
      and s': "s' = (select rnd pb pt s)
           \<lparr>p_tail := rnd (p_tail s + p_J (select rnd pb pt s)), posout := l\<rparr>"
    by (rule body_Inr)
  from remove_each_length_less [OF l select_J] s' show ?thesis
    by simp
qed

text \<open>
  The loop \<^verbatim>\<open>while p_tail < alpha\<close>. An exception in the body ends it. Every completed
  iteration shortens \<open>posout\<close>, which is the termination argument.
\<close>

function loop :: "(real \<Rightarrow> real) \<Rightarrow> real list \<Rightarrow> real \<Rightarrow> state \<Rightarrow> error + state" where
  "loop rnd pmf alpha s =
     (if p_tail s < alpha then
        (case body rnd pmf s of Inl e \<Rightarrow> Inl e | Inr s' \<Rightarrow> loop rnd pmf alpha s')
      else Inr s)"
  by pat_completeness auto
termination
  by (relation "measure (\<lambda>(rnd, pmf, alpha, s). length (posout s))")
    (auto dest: body_length)

declare loop.simps [simp del]

text \<open>
  The number of iterations that the loop completes: an iteration that raises ends the
  loop and is not counted.
\<close>

function loop_count :: "(real \<Rightarrow> real) \<Rightarrow> real list \<Rightarrow> real \<Rightarrow> state \<Rightarrow> nat" where
  "loop_count rnd pmf alpha s =
     (if p_tail s < alpha then
        (case body rnd pmf s of Inl e \<Rightarrow> 0 | Inr s' \<Rightarrow> 1 + loop_count rnd pmf alpha s')
      else 0)"
  by pat_completeness auto
termination
  by (relation "measure (\<lambda>(rnd, pmf, alpha, s). length (posout s))")
    (auto dest: body_length)

declare loop_count.simps [simp del]

text \<open>The state before the loop (lines 43 to 51).\<close>

definition init :: "int \<Rightarrow> state" where
  "init n = \<lparr>bottom = 0, top_v = n, J = [], p_J = 0, p_tail = 0, posout = arange n\<rparr>"

text \<open>
  Lines 77 to 79: the division for \<open>gamma\<close> and the result. In the division \<open>p_J\<close> is zero
  only when the loop body never ran (lemma \<open>loop_exit_p_J\<close> below, for exact arithmetic and
  for binary64 rounding), and then it is still the Python integer \<open>0\<close> of line 50, whose
  use as a divisor raises \<^verbatim>\<open>ZeroDivisionError\<close>.
\<close>

definition finish :: "(real \<Rightarrow> real) \<Rightarrow> real \<Rightarrow> state \<Rightarrow> error + int list \<times> int list \<times> real" where
  "finish rnd alpha s =
     (if p_J s = 0 then Inl ZeroDivisionError
      else Inr (posout s, J s, rnd (rnd (p_tail s - alpha) / p_J s)))"

text \<open>
  \<^verbatim>\<open>fisher_accept(N, G, n, alpha)\<close>. The supplier \<open>hpmf\<close> stands for
  \<^verbatim>\<open>hypergeom.pmf\<close>, and \<open>rnd\<close> is the rounding of the float operations.
\<close>

definition fisher_accept ::
  "(real \<Rightarrow> real) \<Rightarrow> (int list \<Rightarrow> int \<Rightarrow> int \<Rightarrow> int \<Rightarrow> real list) \<Rightarrow>
   int \<Rightarrow> int \<Rightarrow> int \<Rightarrow> real \<Rightarrow> error + int list \<times> int list \<times> real" where
  "fisher_accept rnd hpmf N G n alpha =
     (let x = arange n; pmf = hpmf x N G n
      in case loop rnd pmf alpha (init n) of
           Inl e \<Rightarrow> Inl e
         | Inr s \<Rightarrow> finish rnd alpha s)"

text \<open>
  \<^verbatim>\<open>fisher_accept2\<close>: the two assertions of lines 113 and 114, then the same code as
  \<^verbatim>\<open>fisher_accept\<close>.
\<close>

definition fisher_accept2 ::
  "(real \<Rightarrow> real) \<Rightarrow> (int list \<Rightarrow> int \<Rightarrow> int \<Rightarrow> int \<Rightarrow> real list) \<Rightarrow>
   int \<Rightarrow> int \<Rightarrow> int \<Rightarrow> real \<Rightarrow> error + int list \<times> int list \<times> real" where
  "fisher_accept2 rnd hpmf N G n alpha =
     (if \<not> N > n then Inl AssertionError
      else if \<not> N > G then Inl AssertionError
      else let x = arange n; pmf = hpmf x N G n
           in case loop rnd pmf alpha (init n) of
                Inl e \<Rightarrow> Inl e
              | Inr s \<Rightarrow> finish rnd alpha s)"

section \<open>chisq.py\<close>

text \<open>
  The three functions take two lists of values that can be compared for equality and
  sorted (integers in the tests of the source). The float operations of \<^verbatim>\<open>chisq_1\<close> and
  \<^verbatim>\<open>chisq_3\<close>, which are operations of Python floats, round by the parameter \<open>rnd\<close>; the
  conversion \<^verbatim>\<open>float(c)\<close> of a count is exact. The numpy operations of \<^verbatim>\<open>chisq_2\<close> are
  modelled without rounding.
\<close>

text \<open>\<^verbatim>\<open>np.unique(z)\<close>: the sorted values of \<open>z\<close>, each once.\<close>

definition np_unique :: "'a::linorder list \<Rightarrow> 'a list" where
  "np_unique z = remdups_adj (sort z)"

text \<open>Division of Python floats: a zero divisor raises \<^verbatim>\<open>ZeroDivisionError\<close>.\<close>

definition py_div :: "(real \<Rightarrow> real) \<Rightarrow> real \<Rightarrow> real \<Rightarrow> error + real" where
  "py_div rnd a b = (if b = 0 then Inl ZeroDivisionError else Inr (rnd (a / b)))"

text \<open>
  \<^verbatim>\<open>sum(l)\<close> on a list of floats: the elements are added to \<open>0\<close> from left to right, as
  CPython did when the source was written (since version 3.12 it compensates the rounding
  errors of the partial sums). Without rounding the result is the sum of the list
  either way.
\<close>

definition py_sum :: "(real \<Rightarrow> real) \<Rightarrow> real list \<Rightarrow> real" where
  "py_sum rnd l = foldl (\<lambda>s t. rnd (s + t)) 0 l"

text \<open>
  A list comprehension \<^verbatim>\<open>[f(i) for i in xs]\<close>, or a loop \<^verbatim>\<open>for i in xs: l += [f(i)]\<close> from
  the empty list, whose element expression can raise: the elements are computed in
  order, and the first exception ends the computation.
\<close>

fun map_err :: "('a \<Rightarrow> error + 'b) \<Rightarrow> 'a list \<Rightarrow> error + 'b list" where
  "map_err f [] = Inr []"
| "map_err f (i # xs) =
     (case f i of
        Inl e \<Rightarrow> Inl e
      | Inr v \<Rightarrow> (case map_err f xs of Inl e \<Rightarrow> Inl e | Inr vs \<Rightarrow> Inr (v # vs)))"

text \<open>
  Lines 29 to 33 of \<^verbatim>\<open>chisq_1\<close>: the expected counts \<open>E_k\<close>, one for each unique value
  of the pooled sample.
\<close>

definition chisq_1_E_k ::
  "(real \<Rightarrow> real) \<Rightarrow> 'a::linorder list \<Rightarrow> 'a list \<Rightarrow> error + real list" where
  "chisq_1_E_k rnd x y =
     (let n = length x; m = length y; z = x @ y; u = np_unique z
      in case map_err (\<lambda>i. py_div rnd (real (count_list z i)) (real (m + n))) u of
           Inl e \<Rightarrow> Inl e
         | Inr p \<Rightarrow> Inr (map (\<lambda>j. rnd (real n * j)) p))"

text \<open>
  \<^verbatim>\<open>chisq_1\<close>. The lists \<open>O_k\<close> and \<open>E_k\<close> have the length of \<open>u\<close>, so the indices of
  line 35 are in range.
\<close>

definition chisq_1 :: "(real \<Rightarrow> real) \<Rightarrow> 'a::linorder list \<Rightarrow> 'a list \<Rightarrow> error + real" where
  "chisq_1 rnd x y =
     (let z = x @ y; u = np_unique z
      in case chisq_1_E_k rnd x y of
           Inl e \<Rightarrow> Inl e
         | Inr E_k \<Rightarrow>
             let O_k = map (\<lambda>k. count_list x k) u
             in case map_err
                       (\<lambda>i. py_div rnd (rnd ((rnd (real (O_k ! i) - E_k ! i))\<^sup>2)) (E_k ! i))
                       [0..<length u] of
                  Inl e \<Rightarrow> Inl e
                | Inr terms \<Rightarrow> Inr (py_sum rnd terms))"

text \<open>
  Values of a numpy float array as \<^verbatim>\<open>chisq_2\<close> needs them: \<^verbatim>\<open>np.true_divide\<close> by zero
  gives an infinity or NaN instead of raising, and \<^verbatim>\<open>np.nansum\<close> adds the elements with
  every NaN replaced by zero.
\<close>

datatype npfloat = Fin real | PInf | NInf | NaN

definition np_true_divide :: "real \<Rightarrow> real \<Rightarrow> npfloat" where
  "np_true_divide a b =
     (if b = 0 then (if a = 0 then NaN else if 0 < a then PInf else NInf)
      else Fin (a / b))"

fun np_add :: "npfloat \<Rightarrow> npfloat \<Rightarrow> npfloat" where
  "np_add (Fin a) (Fin b) = Fin (a + b)"
| "np_add NaN _ = NaN"
| "np_add _ NaN = NaN"
| "np_add PInf NInf = NaN"
| "np_add NInf PInf = NaN"
| "np_add PInf _ = PInf"
| "np_add _ PInf = PInf"
| "np_add NInf _ = NInf"
| "np_add _ NInf = NInf"

definition np_nansum :: "npfloat list \<Rightarrow> npfloat" where
  "np_nansum a = foldl np_add (Fin 0) (map (\<lambda>v. if v = NaN then Fin 0 else v) a)"

text \<open>
  \<^verbatim>\<open>chisq_2\<close>. \<^verbatim>\<open>np.unique(z, return_counts=True)\<close> gives the sorted unique values
  and the number of occurrences of each. The division of the counts by \<open>n + m\<close> is
  elementwise, so it is carried out only when \<open>z\<close> has an element, and then \<open>n + m\<close> is
  not zero.
\<close>

definition chisq_2 :: "'a::linorder list \<Rightarrow> 'a list \<Rightarrow> npfloat" where
  "chisq_2 x y =
     (let n = length x; m = length y; z = x @ y;
          u = np_unique z; counts = map (\<lambda>k. count_list z k) u;
          p = map (\<lambda>c. real c / real (n + m)) counts;
          E_k = map (\<lambda>q. q * real n) p;
          O_k = map (\<lambda>k. count_list x k) u
      in np_nansum (map (\<lambda>(o_k, e_k). np_true_divide ((real o_k - e_k)\<^sup>2) e_k) (zip O_k E_k)))"

text \<open>
  The first loop of \<^verbatim>\<open>chisq_3\<close> (lines 68 to 71): the values of \<open>z\<close> in the order of
  their first occurrence. \<^verbatim>\<open>z[0]\<close> raises \<^verbatim>\<open>IndexError\<close> on the empty list.
\<close>

definition chisq_3_u :: "'a list \<Rightarrow> error + 'a list" where
  "chisq_3_u z =
     (case getitem z 0 of
        Inl e \<Rightarrow> Inl e
      | Inr z0 \<Rightarrow> Inr (fold (\<lambda>i u. if i \<notin> set u then u @ [i] else u) z [z0]))"

text \<open>The counting loops of lines 74 to 77 and 84 to 87.\<close>

definition count_loop :: "'a \<Rightarrow> 'a list \<Rightarrow> nat" where
  "count_loop j z = fold (\<lambda>k count. if j = k then count + 1 else count) z 0"

text \<open>Lines 66 to 81 of \<^verbatim>\<open>chisq_3\<close>: the expected counts \<open>E_k\<close>.\<close>

definition chisq_3_E_k :: "(real \<Rightarrow> real) \<Rightarrow> 'a list \<Rightarrow> 'a list \<Rightarrow> error + real list" where
  "chisq_3_E_k rnd x y =
     (let n = length x; m = length y; z = x @ y
      in case chisq_3_u z of
           Inl e \<Rightarrow> Inl e
         | Inr u \<Rightarrow>
             (case map_err (\<lambda>j. py_div rnd (real (count_loop j z)) (real (n + m))) u of
                Inl e \<Rightarrow> Inl e
              | Inr p \<Rightarrow> Inr (map (\<lambda>freq. rnd (freq * real n)) p)))"

text \<open>The summation loop of lines 89 to 91.\<close>

fun sum_loop ::
  "(real \<Rightarrow> real) \<Rightarrow> (nat \<Rightarrow> error + real) \<Rightarrow> nat list \<Rightarrow> real \<Rightarrow> error + real" where
  "sum_loop rnd f [] chi_s = Inr chi_s"
| "sum_loop rnd f (s # ss) chi_s =
     (case f s of Inl e \<Rightarrow> Inl e | Inr v \<Rightarrow> sum_loop rnd f ss (rnd (chi_s + v)))"

definition chisq_3 :: "(real \<Rightarrow> real) \<Rightarrow> 'a list \<Rightarrow> 'a list \<Rightarrow> error + real" where
  "chisq_3 rnd x y =
     (let z = x @ y
      in case chisq_3_E_k rnd x y of
           Inl e \<Rightarrow> Inl e
         | Inr E_k \<Rightarrow>
             (case chisq_3_u z of
                Inl e \<Rightarrow> Inl e
              | Inr u \<Rightarrow>
                  let O_k = map (\<lambda>r. count_loop r x) u
                  in sum_loop rnd
                       (\<lambda>s. py_div rnd (rnd ((rnd (real (O_k ! s) - E_k ! s))\<^sup>2)) (E_k ! s))
                       [0..<length u] 0))"

text \<open>The fixed samples of the tests of the source (lines 96 and 97).\<close>

definition fixtest_x :: "int list" where
  "fixtest_x = [1, 1, 2, 2, 2, 3, 4, 4, 4, 5]"

definition fixtest_y :: "int list" where
  "fixtest_y = [2, 2, 3, 4, 4, 5, 5, 5]"

section \<open>Properties of the rounding to binary64\<close>



lemma round_half_even_nearest:
  "\<bar>of_int (round_half_even y) - y\<bar> \<le> \<bar>of_int m - y\<bar>"
proof -
  define f where "f = \<lfloor>y\<rfloor>"
  define d where "d = y - of_int f"
  have d: "0 \<le> d" "d < 1"
    by (simp_all add: d_def f_def) linarith
  have y: "y - of_int f = d"
    by (simp add: d_def)
  have rhe: "round_half_even y =
      (if d < 1 / 2 then f else if 1 / 2 < d then f + 1 else if even f then f else f + 1)"
    by (simp add: round_half_even_def Let_def f_def d_def)
  have r: "\<bar>of_int (round_half_even y) - y\<bar> \<le> d \<and> \<bar>of_int (round_half_even y) - y\<bar> \<le> 1 - d"
    using d y unfolding rhe by (auto; linarith)
  show ?thesis
  proof (cases "m \<le> f")
    case True
    then have "(of_int m :: real) \<le> of_int f"
      by simp
    with d y have "d \<le> \<bar>of_int m - y\<bar>"
      by linarith
    with r show ?thesis
      by linarith
  next
    case False
    then have "f + 1 \<le> m"
      by simp
    then have "(of_int (f + 1) :: real) \<le> of_int m"
      by (simp only: of_int_le_iff)
    then have "(of_int f :: real) + 1 \<le> of_int m"
      by simp
    with d y have "1 - d \<le> \<bar>of_int m - y\<bar>"
      by linarith
    with r show ?thesis
      by linarith
  qed
qed

lemma double_nearest:
  assumes "x \<noteq> 0"
  shows "\<bar>double x - x\<bar> \<le> \<bar>of_int m * 2 powi (max (expo x) (- 1022) - 52) - x\<bar>"
proof -
  define u :: real where "u = 2 powi (max (expo x) (- 1022) - 52)"
  have u: "0 < u"
    by (simp add: u_def)
  have scale: "\<bar>a - x / u\<bar> * u = \<bar>a * u - x\<bar>" for a
  proof -
    from u have "(a - x / u) * u = a * u - x"
      by (simp add: field_simps)
    then have "\<bar>a * u - x\<bar> = \<bar>a - x / u\<bar> * \<bar>u\<bar>"
      by (simp only: abs_mult [symmetric])
    with u show ?thesis
      by simp
  qed
  from u round_half_even_nearest [of "x / u" m]
  have "\<bar>of_int (round_half_even (x / u)) - x / u\<bar> * u \<le> \<bar>of_int m - x / u\<bar> * u"
    by (simp only: mult_le_cancel_right_pos)
  then have "\<bar>of_int (round_half_even (x / u)) * u - x\<bar> \<le> \<bar>of_int m * u - x\<bar>"
    by (simp only: scale)
  with assms show ?thesis
    by (simp add: double_def Let_def flip: u_def)
qed








lemma double_0: "double 0 = 0"
  by (simp add: double_def)

section \<open>Invariants of the removal loop\<close>

text \<open>
  While outcomes remain, \<open>posout\<close> is the interval from \<open>bottom\<close> to \<open>top_v\<close> of the
  outcome space \<open>0, \<dots>, n\<close>; \<open>mass pmf ks\<close> is the total point mass of the outcomes \<open>ks\<close>.
\<close>

definition region :: "int \<Rightarrow> state \<Rightarrow> bool" where
  "region n s \<longleftrightarrow>
     0 \<le> bottom s \<and> top_v s \<le> n \<and> bottom s \<le> top_v s + 1 \<and>
     posout s = [bottom s..top_v s]"

definition mass :: "real list \<Rightarrow> int list \<Rightarrow> real" where
  "mass pmf ks = (\<Sum>k\<leftarrow>ks. pmf ! nat k)"

lemma region_init: "- 1 \<le> n \<Longrightarrow> region n (init n)"
  by (simp add: region_def init_def arange_def)

lemma getitem_in_range:
  "0 \<le> i \<Longrightarrow> i < int (length a) \<Longrightarrow> getitem a i = Inr (a ! nat i)"
  by (simp add: getitem_def)

lemma remove_each_bottom:
  "b \<le> t \<Longrightarrow> remove_each [b..t] [b] = Inr [b + 1..t]"
  by (simp add: list_remove_def upto_rec1 [of b t])

lemma remove_each_top:
  "b \<le> t \<Longrightarrow> remove_each [b..t] [t] = Inr [b..t - 1]"
  by (simp add: list_remove_def upto_rec2 [of b t] remove1_append)

lemma remove_each_both:
  "b < t \<Longrightarrow> remove_each [b..t] [b, t] = Inr [b + 1..t - 1]"
proof -
  assume bt: "b < t"
  then have 1: "[b..t] = b # [b + 1..t]"
    by (simp add: upto_rec1)
  from bt have 2: "[b + 1..t] = [b + 1..t - 1] @ [t]"
    by (simp add: upto_rec2)
  from bt show ?thesis
    by (simp add: list_remove_def 1 2 remove1_append)
qed

lemma select_cases:
  obtains (lower) "pb < pt" "select rnd pb pt s = s\<lparr>J := [bottom s], p_J := pb, bottom := bottom s + 1\<rparr>"
  | (upper) "pt < pb" "select rnd pb pt s = s\<lparr>J := [top_v s], p_J := pt, top_v := top_v s - 1\<rparr>"
  | (both) "pb = pt" "bottom s < top_v s"
      "select rnd pb pt s = s\<lparr>J := [bottom s, top_v s], p_J := rnd (pb + pt),
          bottom := bottom s + 1, top_v := top_v s - 1\<rparr>"
  | (last) "pb = pt" "\<not> bottom s < top_v s"
      "select rnd pb pt s = s\<lparr>J := [bottom s], p_J := pb, bottom := bottom s + 1\<rparr>"
  by (cases pb pt rule: linorder_cases; cases "bottom s < top_v s") (auto simp: select_def)

definition next_state :: "(real \<Rightarrow> real) \<Rightarrow> real list \<Rightarrow> state \<Rightarrow> state" where
  "next_state rnd pmf s =
     (let s1 = select rnd (pmf ! nat (bottom s)) (pmf ! nat (top_v s)) s
      in s1\<lparr>p_tail := rnd (p_tail s + p_J s1), posout := [bottom s1..top_v s1]\<rparr>)"

lemma body_next_state:
  assumes r: "region n s" and bt: "bottom s \<le> top_v s" and len: "length pmf = nat (n + 1)"
  shows "body rnd pmf s = Inr (next_state rnd pmf s)"
proof -
  define pb where "pb = pmf ! nat (bottom s)"
  define pt where "pt = pmf ! nat (top_v s)"
  define s1 where "s1 = select rnd pb pt s"
  from r bt len have gb: "getitem pmf (bottom s) = Inr pb"
    and gt: "getitem pmf (top_v s) = Inr pt"
    by (auto simp: region_def pb_def pt_def intro!: getitem_in_range)
  from r have po: "posout s = [bottom s..top_v s]"
    by (simp add: region_def)
  have tl: "p_tail s1 = p_tail s" and po1: "posout s1 = posout s"
    by (simp_all add: s1_def select_def)
  have "remove_each [bottom s..top_v s] (J s1) = Inr [bottom s1..top_v s1]"
    unfolding s1_def
  proof (cases rule: select_cases [where pb = pb and pt = pt and rnd = rnd and s = s])
    case lower
    with bt show "remove_each [bottom s..top_v s] (J (select rnd pb pt s))
        = Inr [bottom (select rnd pb pt s)..top_v (select rnd pb pt s)]"
      by (simp add: remove_each_bottom del: remove_each.simps)
  next
    case upper
    with bt show "remove_each [bottom s..top_v s] (J (select rnd pb pt s))
        = Inr [bottom (select rnd pb pt s)..top_v (select rnd pb pt s)]"
      by (simp add: remove_each_top del: remove_each.simps)
  next
    case both
    with bt show "remove_each [bottom s..top_v s] (J (select rnd pb pt s))
        = Inr [bottom (select rnd pb pt s)..top_v (select rnd pb pt s)]"
      by (simp add: remove_each_both del: remove_each.simps)
  next
    case last
    with bt have "bottom s = top_v s"
      by simp
    with last show "remove_each [bottom s..top_v s] (J (select rnd pb pt s))
        = Inr [bottom (select rnd pb pt s)..top_v (select rnd pb pt s)]"
      by (simp add: list_remove_def)
  qed
  with gb gt po tl po1 show ?thesis
    by (simp add: body_def next_state_def Let_def flip: s1_def pb_def pt_def)
qed

lemma region_next_state:
  assumes r: "region n s" and bt: "bottom s \<le> top_v s"
  shows "region n (next_state rnd pmf s)"
  using r bt
  by (cases rule: select_cases [where pb = "pmf ! nat (bottom s)" and pt = "pmf ! nat (top_v s)"
        and rnd = rnd and s = s])
    (simp_all add: next_state_def region_def)

lemma body_exhausted:
  assumes r: "region n s" and bt: "top_v s < bottom s" and len: "length pmf = nat (n + 1)"
  shows "body rnd pmf s = Inl (if bottom s = n + 1 then IndexError else ValueError)"
proof (cases "bottom s = n + 1")
  case True
  with len r have "getitem pmf (bottom s) = Inl IndexError"
    by (simp add: getitem_def region_def)
  with True show ?thesis
    by (simp add: body_def)
next
  case False
  with r bt have b: "0 \<le> bottom s" "bottom s \<le> n" and t: "top_v s = bottom s - 1"
    by (simp_all add: region_def)
  from b len have gb: "getitem pmf (bottom s) = Inr (pmf ! nat (bottom s))"
    by (simp add: getitem_in_range)
  have "\<exists>pt. getitem pmf (top_v s) = Inr pt"
  proof (cases "bottom s = 0")
    case True
    with b t len show ?thesis
      by (simp add: getitem_def)
  next
    case False
    with b t len have "getitem pmf (top_v s) = Inr (pmf ! nat (top_v s))"
      by (simp add: getitem_in_range)
    then show ?thesis ..
  qed
  with gb obtain pb pt where gb: "getitem pmf (bottom s) = Inr pb"
    and gt: "getitem pmf (top_v s) = Inr pt"
    by blast
  from r bt have po: "posout s = []"
    by (simp add: region_def)
  have "remove_each [] (J (select rnd pb pt s)) = Inl ValueError"
    by (cases rule: select_cases [where pb = pb and pt = pt and rnd = rnd and s = s])
      (simp_all add: list_remove_def)
  with gb gt po False show ?thesis
    by (simp add: body_def Let_def select_posout)
qed


lemma upto_map_int: "[0..n] = map int [0..<nat (n + 1)]"
  by (rule nth_equalityI) (auto simp: nth_upto)

lemma mass_arange:
  assumes "length pmf = nat (n + 1)"
  shows "mass pmf (arange n) = sum_list pmf"
proof -
  have "mass pmf (arange n) = (\<Sum>i\<leftarrow>[0..<length pmf]. pmf ! i)"
    by (simp add: mass_def arange_def upto_map_int assms comp_def)
  then show ?thesis
    by (simp add: map_nth)
qed

definition accounted :: "real list \<Rightarrow> state \<Rightarrow> bool" where
  "accounted pmf s \<longleftrightarrow>
     p_tail s = sum_list pmf - mass pmf (posout s) \<and> p_J s = mass pmf (J s)"

lemma accounted_init:
  "length pmf = nat (n + 1) \<Longrightarrow> accounted pmf (init n)"
proof -
  assume "length pmf = nat (n + 1)"
  then have "mass pmf (posout (init n)) = sum_list pmf"
    by (simp add: init_def mass_arange)
  moreover have "p_tail (init n) = 0" "p_J (init n) = mass pmf (J (init n))"
    by (simp_all add: init_def mass_def)
  ultimately show ?thesis
    by (simp add: accounted_def)
qed

lemma mass_upto_bottom: "b \<le> t \<Longrightarrow> mass pmf [b..t] = pmf ! nat b + mass pmf [b + 1..t]"
  by (simp add: mass_def upto_rec1 [of b t])

lemma mass_upto_top: "b \<le> t \<Longrightarrow> mass pmf [b..t] = mass pmf [b..t - 1] + pmf ! nat t"
  by (simp add: mass_def upto_rec2 [of b t])

lemma accounted_next_state:
  assumes r: "region n s" and bt: "bottom s \<le> top_v s" and a: "accounted pmf s"
  shows "accounted pmf (next_state exact pmf s)"
proof (cases rule: select_cases [where pb = "pmf ! nat (bottom s)" and pt = "pmf ! nat (top_v s)"
        and rnd = exact and s = s])
  case lower
  with r bt a show ?thesis
    by (simp add: accounted_def next_state_def region_def exact_def mass_upto_bottom)
      (simp add: mass_def)
next
  case upper
  with r bt a show ?thesis
    by (simp add: accounted_def next_state_def region_def exact_def mass_upto_top)
      (simp add: mass_def)
next
  case both
  then have "bottom s + 1 \<le> top_v s"
    by simp
  from mass_upto_top [OF this, of pmf] both r bt a show ?thesis
    by (simp add: accounted_def next_state_def region_def exact_def mass_upto_bottom)
      (simp add: mass_def)
next
  case last
  with r bt a show ?thesis
    by (simp add: accounted_def next_state_def region_def exact_def mass_upto_bottom)
      (simp add: mass_def)
qed

lemma loop_induct_rule:
  assumes res: "loop rnd pmf alpha s = Inr s'"
    and inv: "P s"
    and step: "\<And>s s'. P s \<Longrightarrow> p_tail s < alpha \<Longrightarrow> body rnd pmf s = Inr s' \<Longrightarrow> P s'"
  shows "P s' \<and> \<not> p_tail s' < alpha"
  using res inv step
proof (induction rnd pmf alpha s rule: loop.induct)
  case (1 rnd pmf alpha s)
  show ?case
  proof (cases "p_tail s < alpha")
    case True
    with "1.prems"(1) obtain s1 where b: "body rnd pmf s = Inr s1"
      and l: "loop rnd pmf alpha s1 = Inr s'"
      by (auto simp: loop.simps [of rnd pmf alpha s] split: sum.splits)
    from "1.prems"(2) True b have "P s1"
      by (rule "1.prems"(3))
    from "1.IH" [OF True b l this "1.prems"(3)] show ?thesis
      by simp
  next
    case False
    with "1.prems"(1,2) show ?thesis
      by (simp add: loop.simps [of rnd pmf alpha s])
  qed
qed

lemma body_region_step:
  assumes r: "region n s" and len: "length pmf = nat (n + 1)"
    and b: "body rnd pmf s = Inr s'"
  shows "bottom s \<le> top_v s \<and> s' = next_state rnd pmf s \<and> region n s'"
proof -
  have bt: "bottom s \<le> top_v s"
  proof (rule ccontr)
    assume "\<not> bottom s \<le> top_v s"
    then have "top_v s < bottom s"
      by simp
    from body_exhausted [OF r this len] b show False
      by simp
  qed
  from body_next_state [OF r bt len] b have "s' = next_state rnd pmf s"
    by simp
  with bt region_next_state [OF r bt] show ?thesis
    by simp
qed

lemma loop_region:
  assumes n: "- 1 \<le> n" and len: "length pmf = nat (n + 1)"
    and res: "loop rnd pmf alpha (init n) = Inr s"
  shows "region n s \<and> \<not> p_tail s < alpha"
proof (rule loop_induct_rule [OF res])
  from n show "region n (init n)"
    by (rule region_init)
next
  fix s s' assume "region n s" "body rnd pmf s = Inr s'"
  with len show "region n s'"
    using body_region_step by blast
qed

lemma loop_accounted:
  assumes n: "- 1 \<le> n" and len: "length pmf = nat (n + 1)"
    and res: "loop exact pmf alpha (init n) = Inr s"
  shows "(region n s \<and> accounted pmf s) \<and> \<not> p_tail s < alpha"
proof (rule loop_induct_rule [OF res])
  from n len show "region n (init n) \<and> accounted pmf (init n)"
    by (simp add: region_init accounted_init)
next
  fix s s' assume p: "region n s \<and> accounted pmf s" and b: "body exact pmf s = Inr s'"
  from p have r: "region n s" and a: "accounted pmf s"
    by simp_all
  from body_region_step [OF r len b] have bt: "bottom s \<le> top_v s"
    and s': "s' = next_state exact pmf s" and r': "region n s'"
    by blast+
  from accounted_next_state [OF r bt a] s' have "accounted pmf s'"
    by simp
  with r' show "region n s' \<and> accounted pmf s'" ..
qed

lemma length_hypergeom_pmf:
  "length (hypergeom_pmf rnd (arange n) N G n) = nat (n + 1)"
  by (simp add: hypergeom_pmf_def arange_def)

lemma nat_diff_int: "nat (n - int k) = nat n - k"
  by linarith

lemma sum_list_hypergeom_pmf:
  assumes "0 \<le> G" "G \<le> N" "0 \<le> n" "n \<le> N"
  shows "sum_list (hypergeom_pmf exact (arange n) N G n) = 1"
proof -
  define c where "c = real (nat N choose nat n)"
  from assms have c: "0 < c"
    by (simp add: c_def)
  have "sum_list (hypergeom_pmf exact (arange n) N G n)
      = (\<Sum>k\<leftarrow>[0..<nat (n + 1)].
           real ((nat G choose k) * (nat (N - G) choose (nat n - k))) / c)"
    by (simp add: hypergeom_pmf_def arange_def upto_map_int exact_def comp_def c_def
        nat_diff_int)
  also have "\<dots> = (\<Sum>k\<le>nat n. real ((nat G choose k) * (nat (N - G) choose (nat n - k))) / c)"
  proof -
    from assms have "set [0..<nat (n + 1)] = {..nat n}"
      by auto
    then show ?thesis
      by (simp add: sum_list_distinct_conv_sum_set)
  qed
  also have "\<dots> = real (\<Sum>k\<le>nat n. (nat G choose k) * (nat (N - G) choose (nat n - k))) / c"
    by (simp add: sum_divide_distrib)
  also have "\<dots> = real ((nat G + nat (N - G)) choose nat n) / c"
    by (simp only: vandermonde)
  also from assms have "nat G + nat (N - G) = nat N"
    by simp
  finally have "sum_list (hypergeom_pmf exact (arange n) N G n) = c / c"
    by (simp only: c_def)
  with c show ?thesis
    by simp
qed

lemma loop_cond_false: "\<not> p_tail s < alpha \<Longrightarrow> loop rnd pmf alpha s = Inr s"
  by (simp add: loop.simps [of rnd pmf alpha s])

lemma loop_cond_true:
  "p_tail s < alpha \<Longrightarrow> body rnd pmf s = Inr s' \<Longrightarrow>
   loop rnd pmf alpha s = loop rnd pmf alpha s'"
  by (simp add: loop.simps [of rnd pmf alpha s])

lemma loop_cond_error:
  "p_tail s < alpha \<Longrightarrow> body rnd pmf s = Inl e \<Longrightarrow> loop rnd pmf alpha s = Inl e"
  by (simp add: loop.simps [of rnd pmf alpha s])

lemma remove_each_subset:
  "remove_each l js = Inr l' \<Longrightarrow> set l' \<subseteq> set l"
proof (induction js arbitrary: l)
  case Nil
  then show ?case by simp
next
  case (Cons j js)
  from Cons.prems obtain l1 where a: "list_remove l j = Inr l1"
    and b: "remove_each l1 js = Inr l'"
    by (auto split: sum.splits)
  from a have "set l1 \<subseteq> set l"
    using set_remove1_subset [of j l] by (auto simp: list_remove_def split: if_splits)
  with Cons.IH [OF b] show ?case
    by blast
qed

lemma body_posout_subset:
  assumes "body rnd pmf s = Inr s'"
  shows "set (posout s') \<subseteq> set (posout s)"
proof -
  from assms obtain pb pt l
    where l: "remove_each (posout s) (J (select rnd pb pt s)) = Inr l"
      and s': "s' = (select rnd pb pt s)
           \<lparr>p_tail := rnd (p_tail s + p_J (select rnd pb pt s)), posout := l\<rparr>"
    by (rule body_Inr)
  from remove_each_subset [OF l] s' show ?thesis
    by simp
qed

lemma loop_posout_subset:
  assumes "loop rnd pmf alpha s = Inr s'"
  shows "set (posout s') \<subseteq> set (posout s)"
proof -
  have "set (posout s') \<subseteq> set (posout s) \<and> \<not> p_tail s' < alpha"
  proof (rule loop_induct_rule [OF assms])
    show "set (posout s) \<subseteq> set (posout s)"
      by simp
  next
    fix t t' assume "set (posout t) \<subseteq> set (posout s)" "body rnd pmf t = Inr t'"
    then show "set (posout t') \<subseteq> set (posout s)"
      using body_posout_subset by blast
  qed
  then show ?thesis ..
qed

lemma loop_antimono:
  assumes "alpha1 \<le> alpha2"
    and "loop rnd pmf alpha1 s = Inr s1" and "loop rnd pmf alpha2 s = Inr s2"
  shows "set (posout s2) \<subseteq> set (posout s1)"
  using assms(2,3)
proof (induction "length (posout s)" arbitrary: s rule: less_induct)
  case less
  show ?case
  proof (cases "p_tail s < alpha1")
    case True
    with assms(1) have 2: "p_tail s < alpha2"
      by simp
    from True less.prems(1) obtain t where b: "body rnd pmf s = Inr t"
      by (auto simp: loop.simps [of rnd pmf alpha1 s] split: sum.splits)
    from less.prems loop_cond_true [OF True b] loop_cond_true [OF 2 b]
    have "loop rnd pmf alpha1 t = Inr s1" "loop rnd pmf alpha2 t = Inr s2"
      by simp_all
    with less.hyps [OF body_length [OF b]] show ?thesis .
  next
    case False
    with less.prems(1) have "s1 = s"
      by (simp add: loop_cond_false)
    with loop_posout_subset [OF less.prems(2)] show ?thesis
      by simp
  qed
qed

lemma body_error:
  assumes "body rnd pmf s = Inl e"
  shows "e = IndexError \<or> e = ValueError"
proof -
  have g: "getitem a i = Inl e \<Longrightarrow> e = IndexError" for a :: "real list" and i
    by (auto simp: getitem_def Let_def split: if_splits)
  have r: "remove_each l js = Inl e \<Longrightarrow> e = ValueError" for l js
    by (induction js arbitrary: l) (auto simp: list_remove_def split: sum.splits if_splits)
  from assms show ?thesis
    by (auto simp: body_def Let_def split: sum.splits dest: g r)
qed

lemma loop_error:
  assumes "loop rnd pmf alpha s = Inl e"
  shows "e = IndexError \<or> e = ValueError"
  using assms
proof (induction "length (posout s)" arbitrary: s rule: less_induct)
  case less
  show ?case
  proof (cases "p_tail s < alpha")
    case True
    show ?thesis
    proof (cases "body rnd pmf s")
      case (Inl e')
      with True less.prems body_error [OF Inl] show ?thesis
        by (simp add: loop_cond_error)
    next
      case (Inr t)
      with True less.prems have "loop rnd pmf alpha t = Inl e"
        by (simp add: loop_cond_true)
      with less.hyps [OF body_length [OF Inr]] show ?thesis .
    qed
  next
    case False
    with less.prems show ?thesis
      by (simp add: loop_cond_false)
  qed
qed

lemma loop_count_bound: "loop_count rnd pmf alpha s \<le> length (posout s)"
proof (induction "length (posout s)" arbitrary: s rule: less_induct)
  case less
  show ?case
  proof (cases "p_tail s < alpha")
    case True
    show ?thesis
    proof (cases "body rnd pmf s")
      case (Inl e)
      with True show ?thesis
        by (simp add: loop_count.simps [of rnd pmf alpha s])
    next
      case (Inr t)
      from less.hyps [OF body_length [OF Inr]] body_length [OF Inr] True Inr show ?thesis
        by (simp add: loop_count.simps [of rnd pmf alpha s])
    qed
  next
    case False
    then show ?thesis
      by (simp add: loop_count.simps [of rnd pmf alpha s])
  qed
qed

lemma mass_Nil: "mass pmf [] = 0"
  by (simp add: mass_def)

lemma loop_total:
  assumes len: "length pmf = nat (n + 1)" and total: "alpha \<le> sum_list pmf"
    and r: "region n s" and a: "accounted pmf s"
  shows "(\<exists>s'. loop exact pmf alpha s = Inr s') \<and>
    loop_count exact pmf alpha s \<le> length (posout s)"
  using r a
proof (induction "length (posout s)" arbitrary: s rule: less_induct)
  case less
  show ?case
  proof (cases "p_tail s < alpha")
    case True
    with total less.prems(2) have "0 < mass pmf (posout s)"
      by (simp add: accounted_def)
    then have "posout s \<noteq> []"
      by (auto simp: mass_Nil)
    with less.prems(1) have bt: "bottom s \<le> top_v s"
      by (simp add: region_def)
    define t where "t = next_state exact pmf s"
    from body_next_state [OF less.prems(1) bt len] have b: "body exact pmf s = Inr t"
      by (simp add: t_def)
    from region_next_state [OF less.prems(1) bt] have rt: "region n t"
      by (simp add: t_def)
    from accounted_next_state [OF less.prems(1) bt less.prems(2)] have at: "accounted pmf t"
      by (simp add: t_def)
    from less.hyps [OF body_length [OF b] rt at] obtain s'
      where l: "loop exact pmf alpha t = Inr s'"
        and c: "loop_count exact pmf alpha t \<le> length (posout t)"
      by blast
    from True b have "loop_count exact pmf alpha s = 1 + loop_count exact pmf alpha t"
      by (simp add: loop_count.simps [of exact pmf alpha s])
    with c body_length [OF b] have "loop_count exact pmf alpha s \<le> length (posout s)"
      by simp
    moreover from l loop_cond_true [OF True b] have "loop exact pmf alpha s = Inr s'"
      by simp
    ultimately show ?thesis
      by blast
  next
    case False
    then show ?thesis
      by (simp add: loop_cond_false loop_count.simps [of exact pmf alpha s])
  qed
qed

text \<open>
  The states at the head of the loop during a run: the initial state, and every state
  that a completed iteration produces from one of them while the loop condition holds.
\<close>

inductive reachable :: "(real \<Rightarrow> real) \<Rightarrow> real list \<Rightarrow> real \<Rightarrow> int \<Rightarrow> state \<Rightarrow> bool"
  for rnd pmf alpha n where
  start: "reachable rnd pmf alpha n (init n)"
| step: "reachable rnd pmf alpha n s \<Longrightarrow> p_tail s < alpha \<Longrightarrow> body rnd pmf s = Inr s' \<Longrightarrow>
    reachable rnd pmf alpha n s'"

lemma reachable_loop:
  "reachable rnd pmf alpha n s \<Longrightarrow> loop rnd pmf alpha (init n) = loop rnd pmf alpha s"
  by (induction rule: reachable.induct) (simp_all add: loop_cond_true)

lemma reachable_region:
  assumes "reachable rnd pmf alpha n s" and "- 1 \<le> n" and "length pmf = nat (n + 1)"
  shows "region n s"
  using assms
proof (induction rule: reachable.induct)
  case start
  then show ?case by (simp add: region_init)
next
  case (step s s')
  then have "region n s"
    by simp
  from body_region_step [OF this step.prems(2) step.hyps(3)] show ?case
    by blast
qed

lemma loop_exhausted:
  assumes "region n s" and "top_v s < bottom s" and "length pmf = nat (n + 1)"
    and "p_tail s < alpha"
  shows "loop rnd pmf alpha s = Inl (if bottom s = n + 1 then IndexError else ValueError)"
  using body_exhausted [OF assms(1-3)] assms(4)
  by (simp add: loop_cond_error)




section \<open>Concrete runs\<close>

lemma hypergeom_10_2_5:
  "hypergeom_pmf exact (arange 5) 10 2 5 = [2 / 9, 5 / 9, 2 / 9, 0, 0, 0]"
  by (simp add: hypergeom_pmf_def arange_def upto.simps exact_def binomial_code
      fold_atLeastAtMost_nat.simps fact_numeral)

lemmas run_simps = loop.simps body_def getitem_def select_def list_remove_def
  init_def arange_def upto.simps Let_def exact_def

lemma loop_10_2_5_twentieth:
  "loop exact [2 / 9, 5 / 9, 2 / 9, 0, 0, 0] (1 / 20) (init 5) =
   Inr \<lparr>bottom = 1, top_v = 1, J = [0, 2], p_J = 4 / 9, p_tail = 4 / 9, posout = [1]\<rparr>"
  by (simp add: run_simps)

lemma loop_10_2_5_half:
  "loop exact [2 / 9, 5 / 9, 2 / 9, 0, 0, 0] (1 / 2) (init 5) =
   Inr \<lparr>bottom = 2, top_v = 1, J = [1], p_J = 5 / 9, p_tail = 1, posout = []\<rparr>"
  by (simp add: run_simps)

lemma loop_10_2_5_two:
  "loop exact [2 / 9, 5 / 9, 2 / 9, 0, 0, 0] 2 (init 5) = Inl ValueError"
  by (simp add: run_simps)


lemma accept_10_2_5_twentieth:
  "fisher_accept exact (hypergeom_pmf exact) 10 2 5 (1 / 20) = Inr ([1], [0, 2], 71 / 80)"
  by (simp add: fisher_accept_def hypergeom_10_2_5 loop_10_2_5_twentieth finish_def exact_def)

lemma accept_10_2_5_half:
  "fisher_accept exact (hypergeom_pmf exact) 10 2 5 (1 / 2) = Inr ([], [1], 9 / 10)"
  by (simp add: fisher_accept_def hypergeom_10_2_5 loop_10_2_5_half finish_def exact_def)

lemma accept_10_2_5_two:
  "fisher_accept exact (hypergeom_pmf exact) 10 2 5 2 = Inl ValueError"
  by (simp add: fisher_accept_def hypergeom_10_2_5 loop_10_2_5_two)


lemma hypergeom_1_0_0: "hypergeom_pmf exact (arange 0) 1 0 0 = [1]"
  by (simp add: hypergeom_pmf_def arange_def exact_def)

lemma body_1_0_0:
  "body exact [1] (init 0) =
   Inr \<lparr>bottom = 1, top_v = 0, J = [0], p_J = 1, p_tail = 1, posout = []\<rparr>"
  by (simp add: run_simps)

lemma accept_1_0_0_two:
  "fisher_accept exact (hypergeom_pmf exact) 1 0 0 2 = Inl IndexError"
  by (simp add: fisher_accept_def hypergeom_1_0_0) (simp add: run_simps)

lemma accept2_10_2_5_two:
  "fisher_accept2 exact (hypergeom_pmf exact) 10 2 5 2 = Inl ValueError"
  by (simp add: fisher_accept2_def hypergeom_10_2_5 loop_10_2_5_two)

subsection \<open>The regular case in binary64 arithmetic\<close>



















subsection \<open>A run that exhausts the outcomes in binary64 arithmetic\<close>

lemma expo_exh_0: "expo (19 / 471975) = - 15"
  by (simp add: expo_def compute_bitlen)

lemma double_exh_0: "double (19 / 471975) = 2970395782831561 / 73786976294838206464"
  apply (simp add: double_def expo_exh_0 Let_def power_int_minus)
  apply (simp add: round_half_even_def Let_def)
  done

lemma expo_exh_1: "expo (323 / 314650) = - 10"
  by (simp add: expo_def compute_bitlen)

lemma double_exh_1: "double (323 / 314650) = 591758534860975 / 576460752303423488"
  apply (simp add: double_def expo_exh_1 Let_def power_int_minus)
  apply (simp add: round_half_even_def Let_def)
  done

lemma expo_exh_2: "expo (14212 / 1415925) = - 7"
  by (simp add: expo_def compute_bitlen)

lemma double_exh_2: "double (14212 / 1415925) = 2893041725986989 / 288230376151711744"
  apply (simp add: double_def expo_exh_2 Let_def power_int_minus)
  apply (simp add: round_half_even_def Let_def)
  done

lemma expo_exh_3: "expo (14212 / 283185) = - 5"
  by (simp add: expo_def compute_bitlen)

lemma double_exh_3: "double (14212 / 283185) = 452037769685467 / 9007199254740992"
  apply (simp add: double_def expo_exh_3 Let_def power_int_minus)
  apply (simp add: round_half_even_def Let_def)
  done

lemma expo_exh_4: "expo (646 / 4495) = - 3"
  by (simp add: expo_def compute_bitlen)

lemma double_exh_4: "double (646 / 4495) = 5177887180033531 / 36028797018963968"
  apply (simp add: double_def expo_exh_4 Let_def power_int_minus)
  apply (simp add: round_half_even_def Let_def)
  done

lemma expo_exh_5: "expo (16796 / 67425) = - 3"
  by (simp add: expo_def compute_bitlen)

lemma double_exh_5: "double (16796 / 67425) = 4487502222695727 / 18014398509481984"
  apply (simp add: double_def expo_exh_5 Let_def power_int_minus)
  apply (simp add: round_half_even_def Let_def)
  done

lemma expo_exh_6: "expo (18088 / 67425) = - 2"
  by (simp add: expo_def compute_bitlen)

lemma double_exh_6: "double (18088 / 67425) = 4832694701364629 / 18014398509481984"
  apply (simp add: double_def expo_exh_6 Let_def power_int_minus)
  apply (simp add: round_half_even_def Let_def)
  done

lemma expo_exh_7: "expo (28424 / 157325) = - 3"
  by (simp add: expo_def compute_bitlen)

lemma double_exh_7: "double (28424 / 157325) = 6509343883470725 / 36028797018963968"
  apply (simp add: double_def expo_exh_7 Let_def power_int_minus)
  apply (simp add: round_half_even_def Let_def)
  done

lemma expo_exh_8: "expo (7106 / 94395) = - 4"
  by (simp add: expo_def compute_bitlen)

lemma double_exh_8: "double (7106 / 94395) = 1356113309056401 / 18014398509481984"
  apply (simp add: double_def expo_exh_8 Let_def power_int_minus)
  apply (simp add: round_half_even_def Let_def)
  done

lemma expo_exh_9: "expo (3553 / 188790) = - 6"
  by (simp add: expo_def compute_bitlen)

lemma double_exh_9: "double (3553 / 188790) = 1356113309056401 / 72057594037927936"
  apply (simp add: double_def expo_exh_9 Let_def power_int_minus)
  apply (simp add: round_half_even_def Let_def)
  done

lemma expo_exh_10: "expo (418 / 157325) = - 9"
  by (simp add: expo_def compute_bitlen)

lemma double_exh_10: "double (418 / 157325) = 3063220651045047 / 1152921504606846976"
  apply (simp add: double_def expo_exh_10 Let_def power_int_minus)
  apply (simp add: round_half_even_def Let_def)
  done

lemma expo_exh_11: "expo (38 / 202275) = - 13"
  by (simp add: expo_def compute_bitlen)

lemma double_exh_11: "double (38 / 202275) = 3465461746636821 / 18446744073709551616"
  apply (simp add: double_def expo_exh_11 Let_def power_int_minus)
  apply (simp add: round_half_even_def Let_def)
  done

lemma expo_exh_12: "expo (1 / 202275) = - 18"
  by (simp add: expo_def compute_bitlen)

lemma double_exh_12: "double (1 / 202275) = 5836567152230435 / 1180591620717411303424"
  apply (simp add: double_def expo_exh_12 Let_def power_int_minus)
  apply (simp add: round_half_even_def Let_def)
  done

lemma expo_exh_13: "expo (5836567152230435 / 1180591620717411303424) = - 18"
  by (simp add: expo_def compute_bitlen)

lemma double_exh_13: "double (5836567152230435 / 1180591620717411303424) = 5836567152230435 / 1180591620717411303424"
  apply (simp add: double_def expo_exh_13 Let_def power_int_minus)
  apply (simp add: round_half_even_def Let_def)
  done

lemma expo_exh_14: "expo (53362899677535411 / 1180591620717411303424) = - 15"
  by (simp add: expo_def compute_bitlen)

lemma double_exh_14: "double (53362899677535411 / 1180591620717411303424) = 3335181229845963 / 73786976294838206464"
  apply (simp add: double_def expo_exh_14 Let_def power_int_minus)
  apply (simp add: round_half_even_def Let_def)
  done

lemma expo_exh_15: "expo (17197028216393247 / 73786976294838206464) = - 13"
  by (simp add: expo_def compute_bitlen)

lemma double_exh_15: "double (17197028216393247 / 73786976294838206464) = 537407131762289 / 2305843009213693952"
  apply (simp add: double_def expo_exh_15 Let_def power_int_minus)
  apply (simp add: round_half_even_def Let_def)
  done

lemma expo_exh_16: "expo (2904441271206189 / 2305843009213693952) = - 10"
  by (simp add: expo_def compute_bitlen)

lemma double_exh_16: "double (2904441271206189 / 2305843009213693952) = 2904441271206189 / 2305843009213693952"
  apply (simp add: double_def expo_exh_16 Let_def power_int_minus)
  apply (simp add: round_half_even_def Let_def)
  done

lemma expo_exh_17: "expo (9030882573296283 / 2305843009213693952) = - 8"
  by (simp add: expo_def compute_bitlen)

lemma double_exh_17: "double (9030882573296283 / 2305843009213693952) = 2257720643324071 / 576460752303423488"
  apply (simp add: double_def expo_exh_17 Let_def power_int_minus)
  apply (simp add: round_half_even_def Let_def)
  done

lemma expo_exh_18: "expo (8043804095298049 / 576460752303423488) = - 7"
  by (simp add: expo_def compute_bitlen)

lemma double_exh_18: "double (8043804095298049 / 576460752303423488) = 8043804095298049 / 576460752303423488"
  apply (simp add: double_def expo_exh_18 Let_def power_int_minus)
  apply (simp add: round_half_even_def Let_def)
  done

lemma expo_exh_19: "expo (18892710567749257 / 576460752303423488) = - 5"
  by (simp add: expo_def compute_bitlen)

lemma double_exh_19: "double (18892710567749257 / 576460752303423488) = 2361588820968657 / 72057594037927936"
  apply (simp add: double_def expo_exh_19 Let_def power_int_minus)
  apply (simp add: round_half_even_def Let_def)
  done

lemma expo_exh_20: "expo (5977890978452393 / 72057594037927936) = - 4"
  by (simp add: expo_def compute_bitlen)

lemma double_exh_20: "double (5977890978452393 / 72057594037927936) = 5977890978452393 / 72057594037927936"
  apply (simp add: double_def expo_exh_20 Let_def power_int_minus)
  apply (simp add: round_half_even_def Let_def)
  done

lemma expo_exh_21: "expo (11402344214677997 / 72057594037927936) = - 3"
  by (simp add: expo_def compute_bitlen)

lemma double_exh_21: "double (11402344214677997 / 72057594037927936) = 2850586053669499 / 18014398509481984"
  apply (simp add: double_def expo_exh_21 Let_def power_int_minus)
  apply (simp add: round_half_even_def Let_def)
  done

lemma expo_exh_22: "expo (10879059287372529 / 36028797018963968) = - 2"
  by (simp add: expo_def compute_bitlen)

lemma double_exh_22: "double (10879059287372529 / 36028797018963968) = 679941205460783 / 2251799813685248"
  apply (simp add: double_def expo_exh_22 Let_def power_int_minus)
  apply (simp add: round_half_even_def Let_def)
  done

lemma expo_exh_23: "expo (17388403170843253 / 36028797018963968) = - 2"
  by (simp add: expo_def compute_bitlen)

lemma double_exh_23: "double (17388403170843253 / 36028797018963968) = 4347100792710813 / 9007199254740992"
  apply (simp add: double_def expo_exh_23 Let_def power_int_minus)
  apply (simp add: round_half_even_def Let_def)
  done

lemma expo_exh_24: "expo (13181703808117353 / 18014398509481984) = - 1"
  by (simp add: expo_def compute_bitlen)

lemma double_exh_24: "double (13181703808117353 / 18014398509481984) = 1647712976014669 / 2251799813685248"
  apply (simp add: double_def expo_exh_24 Let_def power_int_minus)
  apply (simp add: round_half_even_def Let_def)
  done

lemma expo_exh_25: "expo (18014398509481981 / 18014398509481984) = - 1"
  by (simp add: expo_def compute_bitlen)

lemma double_exh_25: "double (18014398509481981 / 18014398509481984) = 4503599627370495 / 4503599627370496"
  apply (simp add: double_def expo_exh_25 Let_def power_int_minus)
  apply (simp add: round_half_even_def Let_def)
  done

lemma expo_exh_26: "expo (42538140902434685 / 36028797018963968) = 0"
  by (simp add: expo_def compute_bitlen)

lemma double_exh_26: "double (42538140902434685 / 36028797018963968) = 332329225800271 / 281474976710656"
  apply (simp add: double_def expo_exh_26 Let_def power_int_minus)
  apply (simp add: round_half_even_def Let_def)
  done

lemmas double_exh = double_0 double_exh_0 double_exh_1 double_exh_2 double_exh_3 double_exh_4 double_exh_5 double_exh_6 double_exh_7 double_exh_8 double_exh_9 double_exh_10 double_exh_11 double_exh_12 double_exh_13 double_exh_14 double_exh_15 double_exh_16 double_exh_17 double_exh_18 double_exh_19 double_exh_20 double_exh_21 double_exh_22 double_exh_23 double_exh_24 double_exh_25 double_exh_26


lemma upto_0_12: "[0..12] = [0, 1, 2, 3, 4, 5, 6, 7, 8, 9, 10, 11, 12]"
  by (simp add: upto.simps)

lemma hypergeom_double_36_17_12:
  "hypergeom_pmf double (arange 12) 36 17 12 =
    [2970395782831561 / 73786976294838206464,
     591758534860975 / 576460752303423488,
     2893041725986989 / 288230376151711744,
     452037769685467 / 9007199254740992,
     5177887180033531 / 36028797018963968,
     4487502222695727 / 18014398509481984,
     4832694701364629 / 18014398509481984,
     6509343883470725 / 36028797018963968,
     1356113309056401 / 18014398509481984,
     1356113309056401 / 72057594037927936,
     3063220651045047 / 1152921504606846976,
     3465461746636821 / 18446744073709551616,
     5836567152230435 / 1180591620717411303424]"
  by (simp add: hypergeom_pmf_def arange_def upto_0_12 binomial_code
      fold_atLeastAtMost_nat.simps fact_numeral double_exh)

lemma loop_double_36_17_12:
  "loop double [2970395782831561 / 73786976294838206464,
     591758534860975 / 576460752303423488,
     2893041725986989 / 288230376151711744,
     452037769685467 / 9007199254740992,
     5177887180033531 / 36028797018963968,
     4487502222695727 / 18014398509481984,
     4832694701364629 / 18014398509481984,
     6509343883470725 / 36028797018963968,
     1356113309056401 / 18014398509481984,
     1356113309056401 / 72057594037927936,
     3063220651045047 / 1152921504606846976,
     3465461746636821 / 18446744073709551616,
     5836567152230435 / 1180591620717411303424]
     (9007199254740991 / 9007199254740992) (init 12) = Inl ValueError"
  by (simp add: loop.simps body_def getitem_def select_def list_remove_def
      init_def arange_def upto_0_12 Let_def double_exh)

lemma loop_count_double_36_17_12:
  "loop_count double [2970395782831561 / 73786976294838206464,
     591758534860975 / 576460752303423488,
     2893041725986989 / 288230376151711744,
     452037769685467 / 9007199254740992,
     5177887180033531 / 36028797018963968,
     4487502222695727 / 18014398509481984,
     4832694701364629 / 18014398509481984,
     6509343883470725 / 36028797018963968,
     1356113309056401 / 18014398509481984,
     1356113309056401 / 72057594037927936,
     3063220651045047 / 1152921504606846976,
     3465461746636821 / 18446744073709551616,
     5836567152230435 / 1180591620717411303424]
     (9007199254740991 / 9007199254740992) (init 12) = 13"
  by (simp add: loop_count.simps body_def getitem_def select_def list_remove_def
      init_def arange_def upto_0_12 Let_def double_exh)

lemma accept_double_36_17_12:
  "fisher_accept double (hypergeom_pmf double) 36 17 12 (9007199254740991 / 9007199254740992)
     = Inl ValueError"
  by (simp add: fisher_accept_def hypergeom_double_36_17_12 loop_double_36_17_12)

lemma expo_alpha_exh: "expo (9999999999999999 / 10000000000000000) = - 1"
  by (simp add: expo_def compute_bitlen)

lemma double_alpha_exh:
  "double (9999999999999999 / 10000000000000000) = 9007199254740991 / 9007199254740992"
  apply (simp add: double_def expo_alpha_exh Let_def power_int_minus)
  apply (simp add: round_half_even_def Let_def)
  done

text \<open>
  The preconditions of section 4.1 of the specification: \<open>N\<close>, \<open>G\<close>, \<open>n\<close> non-negative,
  \<open>n \<le> N\<close>, \<open>G \<le> N\<close>, and \<open>0 < alpha < 1\<close>.
\<close>

definition spec_precondition :: "int \<Rightarrow> int \<Rightarrow> int \<Rightarrow> real \<Rightarrow> bool" where
  "spec_precondition N G n alpha \<longleftrightarrow>
     0 \<le> N \<and> 0 \<le> G \<and> 0 \<le> n \<and> n \<le> N \<and> G \<le> N \<and> 0 < alpha \<and> alpha < 1"

section \<open>Properties of the chi-square functions\<close>

text \<open>
  The expected count and the term of the sum for a value \<open>k\<close> of the pooled sample, as
  \<^verbatim>\<open>chisq_1\<close> and \<^verbatim>\<open>chisq_3\<close> compute them with rounding \<open>rnd\<close>.
\<close>

definition expected_f :: "(real \<Rightarrow> real) \<Rightarrow> 'a list \<Rightarrow> 'a list \<Rightarrow> 'a \<Rightarrow> real" where
  "expected_f rnd x y k =
     rnd (real (length x) * rnd (real (count_list (x @ y) k) / real (length x + length y)))"

definition chi_term_f :: "(real \<Rightarrow> real) \<Rightarrow> 'a list \<Rightarrow> 'a list \<Rightarrow> 'a \<Rightarrow> real" where
  "chi_term_f rnd x y k =
     rnd (rnd ((rnd (real (count_list x k) - expected_f rnd x y k))\<^sup>2) / expected_f rnd x y k)"

text \<open>
  The chi-square statistic of two samples: over the distinct values \<open>k\<close> of the pooled
  sample, the sum of \<open>(O\<^sub>k - E\<^sub>k)\<^sup>2 / E\<^sub>k\<close>, where \<open>O\<^sub>k\<close> counts \<open>k\<close> in \<open>x\<close> and \<open>E\<^sub>k\<close> is
  \<open>len(x)\<close> times the relative frequency of \<open>k\<close> in the pooled sample.
\<close>

definition expected :: "'a list \<Rightarrow> 'a list \<Rightarrow> 'a \<Rightarrow> real" where
  "expected x y k = real (length x) * (real (count_list (x @ y) k) / real (length x + length y))"

definition chi_term :: "'a list \<Rightarrow> 'a list \<Rightarrow> 'a \<Rightarrow> real" where
  "chi_term x y k = (real (count_list x k) - expected x y k)\<^sup>2 / expected x y k"

definition chi_square :: "'a list \<Rightarrow> 'a list \<Rightarrow> real" where
  "chi_square x y = (\<Sum>k\<in>set (x @ y). chi_term x y k)"

lemma expected_f_exact: "expected_f exact x y k = expected x y k"
  by (simp add: expected_f_def expected_def exact_def)

lemma chi_term_f_exact: "chi_term_f exact x y k = chi_term x y k"
  by (simp add: chi_term_f_def chi_term_def expected_f_exact) (simp add: exact_def)

lemma foldl_exact: "foldl (\<lambda>s t. exact (s + t)) a l = a + sum_list l"
  by (induction l arbitrary: a) (simp_all add: exact_def add.assoc)

lemma py_sum_exact: "py_sum exact l = sum_list l"
  by (simp add: py_sum_def foldl_exact)

lemma map_err_total:
  "(\<And>i. i \<in> set xs \<Longrightarrow> f i = Inr (g i)) \<Longrightarrow> map_err f xs = Inr (map g xs)"
  by (induction xs) simp_all

lemma sum_loop_total:
  "(\<And>s. s \<in> set ss \<Longrightarrow> f s = Inr (g s)) \<Longrightarrow>
   sum_loop rnd f ss a = Inr (foldl (\<lambda>s t. rnd (s + t)) a (map g ss))"
  by (induction ss arbitrary: a) simp_all

lemma distinct_remdups_adj_sorted: "sorted xs \<Longrightarrow> distinct (remdups_adj xs)"
  by (induction xs rule: remdups_adj.induct) auto

lemma distinct_np_unique: "distinct (np_unique z)"
  by (simp add: np_unique_def distinct_remdups_adj_sorted)

lemma set_np_unique: "set (np_unique z) = set z"
  by (simp add: np_unique_def)

lemma fold_first_occurrences:
  "distinct acc \<Longrightarrow>
   distinct (fold (\<lambda>i u. if i \<notin> set u then u @ [i] else u) z acc) \<and>
   set (fold (\<lambda>i u. if i \<notin> set u then u @ [i] else u) z acc) = set acc \<union> set z"
  by (induction z arbitrary: acc) auto

lemma chisq_3_u_Nil: "chisq_3_u [] = Inl IndexError"
  by (simp add: chisq_3_u_def getitem_def)

lemma chisq_3_u_Cons:
  "\<exists>u. chisq_3_u (a # z) = Inr u \<and> distinct u \<and> set u = set (a # z)"
proof -
  have "distinct [a]"
    by simp
  from fold_first_occurrences [OF this, of "a # z"] show ?thesis
    by (auto simp: chisq_3_u_def getitem_def)
qed

lemma chisq_3_u_append:
  assumes "x \<noteq> []"
  obtains u where "chisq_3_u (x @ y) = Inr u" and "distinct u" and "set u = set (x @ y)"
proof -
  from assms obtain a z where "x @ y = a # z"
    by (cases x) auto
  with chisq_3_u_Cons [of a z] that show thesis
    by auto
qed

lemma fold_count: "fold (\<lambda>k count. if j = k then count + 1 else count) z a = a + count_list z j"
  by (induction z arbitrary: a) auto

lemma count_loop_eq: "count_loop j z = count_list z j"
  by (simp add: count_loop_def fold_count)

lemma pooled_length_nonzero: "x \<noteq> [] \<Longrightarrow> real (length x) + real (length y) \<noteq> 0"
proof -
  assume "x \<noteq> []"
  then have "0 < real (length x)"
    by simp
  moreover have "0 \<le> real (length y)"
    by simp
  ultimately show ?thesis
    by linarith
qed

lemma expected_f_pos:
  assumes pos: "\<And>v. 0 < v \<Longrightarrow> 0 < rnd v"
    and "x \<noteq> []" and "k \<in> set (x @ y)"
  shows "0 < expected_f rnd x y k"
proof -
  from assms(2) have n: "0 < real (length x)"
    by simp
  from assms(3) have "count_list (x @ y) k \<noteq> 0"
    by (simp only: count_list_0_iff not_not)
  then have c: "0 < real (count_list (x @ y) k)"
    by (simp only: of_nat_0_less_iff neq0_conv)
  from n have t: "0 < real (length x + length y)"
    by (simp add: add_pos_nonneg)
  from c t have "0 < real (count_list (x @ y) k) / real (length x + length y)"
    by (rule divide_pos_pos)
  then have "0 < rnd (real (count_list (x @ y) k) / real (length x + length y))"
    by (rule pos)
  with n have "0 < real (length x)
      * rnd (real (count_list (x @ y) k) / real (length x + length y))"
    by (rule mult_pos_pos)
  then show ?thesis
    unfolding expected_f_def by (rule pos)
qed

lemma exact_pos: "0 < v \<Longrightarrow> 0 < exact v"
  by (simp add: exact_def)

lemma sum_list_chi_terms:
  assumes "distinct u" and "set u = set (x @ y)"
  shows "sum_list (map (chi_term x y) u) = chi_square x y"
  using assms by (simp add: chi_square_def sum_list_distinct_conv_sum_set)

lemma map_zip_maps:
  "map (\<lambda>(a, b). f a b) (zip (map g u) (map h u)) = map (\<lambda>k. f (g k) (h k)) u"
  by (induction u) simp_all

lemma map_index: "map (\<lambda>i. f (map g u ! i) (map h u ! i)) [0..<length u] = map (\<lambda>k. f (g k) (h k)) u"
  by (rule nth_equalityI) simp_all

lemma chisq_1_E_k_eq:
  assumes "x \<noteq> []"
  shows "chisq_1_E_k rnd x y = Inr (map (expected_f rnd x y) (np_unique (x @ y)))"
proof -
  from pooled_length_nonzero [OF assms, of y] have "real (length y + length x) \<noteq> 0"
    by simp
  then have "map_err (\<lambda>i. py_div rnd (real (count_list (x @ y) i)) (real (length y + length x)))
       (np_unique (x @ y))
     = Inr (map (\<lambda>i. rnd (real (count_list (x @ y) i) / real (length y + length x)))
         (np_unique (x @ y)))"
    by (intro map_err_total) (simp add: py_div_def)
  then show ?thesis
    by (simp add: chisq_1_E_k_def Let_def expected_f_def add.commute)
qed

lemma chi_terms_total:
  assumes pos: "\<And>v. 0 < v \<Longrightarrow> 0 < rnd v" and "x \<noteq> []" and "set u = set (x @ y)"
    and "i \<in> set [0..<length u]"
  shows "py_div rnd (rnd ((rnd (real (map (count_list x) u ! i)
           - map (expected_f rnd x y) u ! i))\<^sup>2)) (map (expected_f rnd x y) u ! i)
      = Inr (rnd (rnd ((rnd (real (map (count_list x) u ! i)
           - map (expected_f rnd x y) u ! i))\<^sup>2) / (map (expected_f rnd x y) u ! i)))"
proof -
  from assms(3,4) have "u ! i \<in> set (x @ y)"
    using nth_mem [of i u] by simp
  from expected_f_pos [where rnd = rnd, OF pos assms(2) this] assms(4) show ?thesis
    by (simp add: py_div_def)
qed

lemma chi_terms_index:
  "map (\<lambda>i. rnd (rnd ((rnd (real (map (count_list x) u ! i)
           - map (expected_f rnd x y) u ! i))\<^sup>2) / (map (expected_f rnd x y) u ! i)))
     [0..<length u] = map (chi_term_f rnd x y) u"
  using map_index [of "\<lambda>a b. rnd (rnd ((rnd (real a - b))\<^sup>2) / b)" "count_list x" u
      "expected_f rnd x y"]
  by (simp add: chi_term_f_def)

lemma chisq_1_eq:
  assumes pos: "\<And>v. 0 < v \<Longrightarrow> 0 < rnd v" and "x \<noteq> []"
  shows "chisq_1 rnd x y = Inr (py_sum rnd (map (chi_term_f rnd x y) (np_unique (x @ y))))"
proof -
  define u where "u = np_unique (x @ y)"
  have u: "set u = set (x @ y)"
    by (simp add: u_def set_np_unique)
  have "map_err (\<lambda>i. py_div rnd (rnd ((rnd (real (map (count_list x) u ! i)
           - map (expected_f rnd x y) u ! i))\<^sup>2)) (map (expected_f rnd x y) u ! i))
         [0..<length u]
      = Inr (map (\<lambda>i. rnd (rnd ((rnd (real (map (count_list x) u ! i)
           - map (expected_f rnd x y) u ! i))\<^sup>2) / (map (expected_f rnd x y) u ! i)))
         [0..<length u])"
    by (intro map_err_total chi_terms_total [where rnd = rnd, OF pos assms(2) u])
  then show ?thesis
    by (simp add: chisq_1_def chisq_1_E_k_eq [OF assms(2)] Let_def chi_terms_index
        flip: u_def)
qed

lemma chisq_3_E_k_eq:
  assumes "x \<noteq> []" and "chisq_3_u (x @ y) = Inr u"
  shows "chisq_3_E_k rnd x y = Inr (map (expected_f rnd x y) u)"
proof -
  from pooled_length_nonzero [OF assms(1), of y] have "real (length x + length y) \<noteq> 0"
    by simp
  then have "map_err (\<lambda>j. py_div rnd (real (count_loop j (x @ y))) (real (length x + length y))) u
     = Inr (map (\<lambda>j. rnd (real (count_list (x @ y) j) / real (length x + length y))) u)"
    by (intro map_err_total) (simp add: py_div_def count_loop_eq)
  with assms(2) show ?thesis
    by (simp add: chisq_3_E_k_def Let_def expected_f_def mult.commute)
qed

lemma chisq_3_eq:
  assumes pos: "\<And>v. 0 < v \<Longrightarrow> 0 < rnd v" and "x \<noteq> []"
    and cu: "chisq_3_u (x @ y) = Inr u" and u: "set u = set (x @ y)"
  shows "chisq_3 rnd x y = Inr (py_sum rnd (map (chi_term_f rnd x y) u))"
proof -
  have "sum_loop rnd (\<lambda>s. py_div rnd (rnd ((rnd (real (map (count_list x) u ! s)
           - map (expected_f rnd x y) u ! s))\<^sup>2)) (map (expected_f rnd x y) u ! s))
         [0..<length u] 0
      = Inr (foldl (\<lambda>s t. rnd (s + t)) 0
          (map (\<lambda>i. rnd (rnd ((rnd (real (map (count_list x) u ! i)
           - map (expected_f rnd x y) u ! i))\<^sup>2) / (map (expected_f rnd x y) u ! i)))
         [0..<length u]))"
    by (intro sum_loop_total chi_terms_total [where rnd = rnd, OF pos assms(2) u])
  with cu show ?thesis
    by (simp add: chisq_3_def chisq_3_E_k_eq [OF assms(2) cu] Let_def chi_terms_index
        py_sum_def count_loop_eq [abs_def])
qed

lemma chisq_1_exact:
  assumes "x \<noteq> []"
  shows "chisq_1 exact x y = Inr (chi_square x y)"
proof -
  have "distinct (np_unique (x @ y))" "set (np_unique (x @ y)) = set (x @ y)"
    by (simp_all add: distinct_np_unique set_np_unique)
  from sum_list_chi_terms [OF this] chisq_1_eq [where rnd = exact, OF exact_pos assms, of y]
  show ?thesis
    by (simp add: py_sum_exact chi_term_f_exact [abs_def])
qed

lemma chisq_3_exact:
  assumes "x \<noteq> []"
  shows "chisq_3 exact x y = Inr (chi_square x y)"
proof -
  from assms obtain u where cu: "chisq_3_u (x @ y) = Inr u"
    and u: "distinct u" "set u = set (x @ y)"
    by (rule chisq_3_u_append)
  from sum_list_chi_terms [OF u] chisq_3_eq [where rnd = exact, OF exact_pos assms cu u(2)]
  show ?thesis
    by (simp add: py_sum_exact chi_term_f_exact [abs_def])
qed

lemma foldl_np_add_Fin: "foldl np_add (Fin a) (map Fin vs) = Fin (a + sum_list vs)"
  by (induction vs arbitrary: a) (simp_all add: add.assoc)

lemma np_nansum_Fin: "np_nansum (map Fin vs) = Fin (sum_list vs)"
  using foldl_np_add_Fin [of 0 vs] by (simp add: np_nansum_def comp_def)

lemma expected_pos:
  assumes "x \<noteq> []" and "k \<in> set (x @ y)"
  shows "0 < expected x y k"
  using expected_f_pos [where rnd = exact, OF exact_pos assms] by (simp add: expected_f_exact)

lemma chisq_2_eq:
  assumes "x \<noteq> []"
  shows "chisq_2 x y = Fin (chi_square x y)"
proof -
  define u where "u = np_unique (x @ y)"
  have u: "distinct u" "set u = set (x @ y)"
    by (simp_all add: u_def distinct_np_unique set_np_unique)
  have "map (\<lambda>(o_k, e_k). np_true_divide ((real o_k - e_k)\<^sup>2) e_k)
          (zip (map (count_list x) u) (map (expected x y) u))
      = map Fin (map (chi_term x y) u)"
  proof -
    have "np_true_divide ((real (count_list x k) - expected x y k)\<^sup>2) (expected x y k)
        = Fin (chi_term x y k)" if "k \<in> set u" for k
      using expected_pos [OF assms, of k y] that u(2)
      by (simp add: np_true_divide_def chi_term_def)
    then have "map (\<lambda>k. np_true_divide ((real (count_list x k) - expected x y k)\<^sup>2)
          (expected x y k)) u = map (\<lambda>k. Fin (chi_term x y k)) u"
      by (intro map_cong) simp_all
    then show ?thesis
      by (simp only: map_zip_maps map_map comp_def)
  qed
  moreover have "map (\<lambda>q. q * real (length x))
        (map (\<lambda>c. real c / real (length x + length y)) (map (count_list (x @ y)) u))
      = map (expected x y) u"
    by (simp add: expected_def mult.commute del: count_list_append)
  ultimately show ?thesis
    using sum_list_chi_terms [OF u]
    by (simp add: chisq_2_def Let_def np_nansum_Fin del: count_list_append map_map flip: u_def)
qed

lemma chisq_3_Nil: "\<exists>e. chisq_3 exact [] y = Inl e"
proof (cases y)
  case Nil
  then show ?thesis
    by (simp add: chisq_3_def chisq_3_E_k_def chisq_3_u_Nil)
next
  case (Cons a z)
  with chisq_3_u_Cons [of a z] obtain u where cu: "chisq_3_u y = Inr u"
    and u: "set u = set (a # z)"
    by auto
  then obtain b v where bv: "u = b # v"
    by (cases u) auto
  have "map_err (\<lambda>j. py_div exact (real (count_loop j y)) (real (length y))) u
     = Inr (map (\<lambda>j. exact (real (count_list y j) / real (length y))) u)"
    using Cons by (intro map_err_total) (simp add: py_div_def count_loop_eq)
  with cu have "chisq_3_E_k exact [] y = Inr (map (\<lambda>j. 0) u)"
    by (simp add: chisq_3_E_k_def exact_def)
  with cu bv show ?thesis
    by (simp add: chisq_3_def py_div_def upt_rec [of 0])
qed

lemma upt_0_5: "[0..<5] = [0, 1, 2, 3, 4]"
  by (simp add: upt_rec)

lemmas fixtest_simps = fixtest_x_def fixtest_y_def np_unique_def py_div_def py_sum_def
  exact_def Let_def upt_0_5 power2_eq_square

lemma chisq_1_E_k_fixtest:
  "chisq_1_E_k exact fixtest_x fixtest_y = Inr [10 / 9, 25 / 9, 10 / 9, 25 / 9, 20 / 9]"
  by (simp add: chisq_1_E_k_def fixtest_simps)

lemma chisq_1_fixtest: "chisq_1 exact fixtest_x fixtest_y = Inr (143 / 100)"
  by (simp add: chisq_1_def chisq_1_E_k_fixtest) (simp add: fixtest_simps)

lemma chisq_2_fixtest: "chisq_2 fixtest_x fixtest_y = Fin (143 / 100)"
  by (simp add: chisq_2_def fixtest_simps np_true_divide_def np_nansum_def)

lemma chisq_3_u_fixtest: "chisq_3_u (fixtest_x @ fixtest_y) = Inr [1, 2, 3, 4, 5]"
  by (simp add: chisq_3_u_def getitem_def fixtest_x_def fixtest_y_def)

lemma chisq_3_E_k_fixtest:
  "chisq_3_E_k exact fixtest_x fixtest_y = Inr [10 / 9, 25 / 9, 10 / 9, 25 / 9, 20 / 9]"
  by (simp add: chisq_3_E_k_def chisq_3_u_fixtest count_loop_eq) (simp add: fixtest_simps)

lemma chisq_3_fixtest: "chisq_3 exact fixtest_x fixtest_y = Inr (143 / 100)"
  by (simp add: chisq_3_def chisq_3_E_k_fixtest chisq_3_u_fixtest count_loop_eq)
    (simp add: fixtest_simps)

subsection \<open>A run of \<^verbatim>\<open>chisq_1\<close> and \<^verbatim>\<open>chisq_3\<close> in binary64 arithmetic\<close>

lemma expo_chi_0: "expo (1 / 5) = - 3"
  by (simp add: expo_def compute_bitlen)

lemma double_chi_0: "double (1 / 5) = 3602879701896397 / 18014398509481984"
  apply (simp add: double_def expo_chi_0 Let_def power_int_minus)
  apply (simp add: round_half_even_def Let_def)
  done

lemma expo_chi_1: "expo (3602879701896397 / 9007199254740992) = - 2"
  by (simp add: expo_def compute_bitlen)

lemma double_chi_1: "double (3602879701896397 / 9007199254740992) = 3602879701896397 / 9007199254740992"
  apply (simp add: double_def expo_chi_1 Let_def power_int_minus)
  apply (simp add: round_half_even_def Let_def)
  done

lemma expo_chi_2: "expo (- (3602879701896397 / 9007199254740992)) = - 2"
  by (simp add: expo_def compute_bitlen)

lemma double_chi_2: "double (- (3602879701896397 / 9007199254740992)) = - (3602879701896397 / 9007199254740992)"
  apply (simp add: double_def expo_chi_2 Let_def power_int_minus)
  apply (simp add: round_half_even_def Let_def)
  done

lemma expo_chi_3: "expo (12980742146337070512478121581609 / 81129638414606681695789005144064) = - 3"
  by (simp add: expo_def compute_bitlen)

lemma double_chi_3: "double (12980742146337070512478121581609 / 81129638414606681695789005144064) = 1441151880758559 / 9007199254740992"
  apply (simp add: double_def expo_chi_3 Let_def power_int_minus)
  apply (simp add: round_half_even_def Let_def)
  done

lemma expo_chi_4: "expo (1441151880758559 / 3602879701896397) = - 2"
  by (simp add: expo_def compute_bitlen)

lemma double_chi_4: "double (1441151880758559 / 3602879701896397) = 7205759403792795 / 18014398509481984"
  apply (simp add: double_def expo_chi_4 Let_def power_int_minus)
  apply (simp add: round_half_even_def Let_def)
  done

lemma expo_chi_5: "expo (3 / 5) = - 1"
  by (simp add: expo_def compute_bitlen)

lemma double_chi_5: "double (3 / 5) = 5404319552844595 / 9007199254740992"
  apply (simp add: double_def expo_chi_5 Let_def power_int_minus)
  apply (simp add: round_half_even_def Let_def)
  done

lemma expo_chi_6: "expo (5404319552844595 / 4503599627370496) = 0"
  by (simp add: expo_def compute_bitlen)

lemma double_chi_6: "double (5404319552844595 / 4503599627370496) = 5404319552844595 / 4503599627370496"
  apply (simp add: double_def expo_chi_6 Let_def power_int_minus)
  apply (simp add: round_half_even_def Let_def)
  done

lemma expo_chi_7: "expo (3602879701896397 / 4503599627370496) = - 1"
  by (simp add: expo_def compute_bitlen)

lemma double_chi_7: "double (3602879701896397 / 4503599627370496) = 3602879701896397 / 4503599627370496"
  apply (simp add: double_def expo_chi_7 Let_def power_int_minus)
  apply (simp add: round_half_even_def Let_def)
  done

lemma expo_chi_8: "expo (12980742146337070512478121581609 / 20282409603651670423947251286016) = - 1"
  by (simp add: expo_def compute_bitlen)

lemma double_chi_8: "double (12980742146337070512478121581609 / 20282409603651670423947251286016) = 1441151880758559 / 2251799813685248"
  apply (simp add: double_def expo_chi_8 Let_def power_int_minus)
  apply (simp add: round_half_even_def Let_def)
  done

lemma expo_chi_9: "expo (2882303761517118 / 5404319552844595) = - 1"
  by (simp add: expo_def compute_bitlen)

lemma double_chi_9: "double (2882303761517118 / 5404319552844595) = 2401919801264265 / 4503599627370496"
  apply (simp add: double_def expo_chi_9 Let_def power_int_minus)
  apply (simp add: round_half_even_def Let_def)
  done

lemma expo_chi_10: "expo (7205759403792795 / 18014398509481984) = - 2"
  by (simp add: expo_def compute_bitlen)

lemma double_chi_10: "double (7205759403792795 / 18014398509481984) = 7205759403792795 / 18014398509481984"
  apply (simp add: double_def expo_chi_10 Let_def power_int_minus)
  apply (simp add: round_half_even_def Let_def)
  done

lemma expo_chi_11: "expo (7205759403792795 / 9007199254740992) = - 1"
  by (simp add: expo_def compute_bitlen)

lemma double_chi_11: "double (7205759403792795 / 9007199254740992) = 7205759403792795 / 9007199254740992"
  apply (simp add: double_def expo_chi_11 Let_def power_int_minus)
  apply (simp add: round_half_even_def Let_def)
  done

lemma expo_chi_12: "expo (12009599006321325 / 9007199254740992) = 0"
  by (simp add: expo_def compute_bitlen)

lemma double_chi_12: "double (12009599006321325 / 9007199254740992) = 3002399751580331 / 2251799813685248"
  apply (simp add: double_def expo_chi_12 Let_def power_int_minus)
  apply (simp add: round_half_even_def Let_def)
  done

lemma expo_chi_13: "expo (2401919801264265 / 4503599627370496) = - 1"
  by (simp add: expo_def compute_bitlen)

lemma double_chi_13: "double (2401919801264265 / 4503599627370496) = 2401919801264265 / 4503599627370496"
  apply (simp add: double_def expo_chi_13 Let_def power_int_minus)
  apply (simp add: round_half_even_def Let_def)
  done

lemma expo_chi_14: "expo (16813438608849855 / 18014398509481984) = - 1"
  by (simp add: expo_def compute_bitlen)

lemma double_chi_14: "double (16813438608849855 / 18014398509481984) = 262709978263279 / 281474976710656"
  apply (simp add: double_def expo_chi_14 Let_def power_int_minus)
  apply (simp add: round_half_even_def Let_def)
  done

lemma expo_chi_15: "expo (24019198012642651 / 18014398509481984) = 0"
  by (simp add: expo_def compute_bitlen)

lemma double_chi_15: "double (24019198012642651 / 18014398509481984) = 6004799503160663 / 4503599627370496"
  apply (simp add: double_def expo_chi_15 Let_def power_int_minus)
  apply (simp add: round_half_even_def Let_def)
  done

lemmas double_chi = double_0 double_chi_0 double_chi_1 double_chi_2 double_chi_3 double_chi_4 double_chi_5 double_chi_6 double_chi_7 double_chi_8 double_chi_9 double_chi_10 double_chi_11 double_chi_12 double_chi_13 double_chi_14 double_chi_15


lemma upt_0_3: "[0..<3] = [0, 1, 2]"
  by (simp add: upt_rec)

lemma chisq_1_double:
  "chisq_1 double [3, 3] [1, 2, 3 :: int] = Inr (3002399751580331 / 2251799813685248)"
  by (simp add: chisq_1_def chisq_1_E_k_def np_unique_def py_div_def py_sum_def Let_def
      upt_0_3 power2_eq_square double_chi)

lemma chisq_3_double:
  "chisq_3 double [3, 3] [1, 2, 3 :: int] = Inr (6004799503160663 / 4503599627370496)"
  by (simp add: chisq_3_def chisq_3_E_k_def chisq_3_u_def getitem_def count_loop_eq
      py_div_def Let_def upt_0_3 power2_eq_square double_chi)

section \<open>Claims about fisher.py\<close>

text \<open>
  C1. Each iteration of the removal loop that completes has chosen the boundary set by
  the tie-break policy of the source, where \<open>pb\<close> and \<open>pt\<close> are the masses read at
  \<open>bottom\<close> and at \<open>top\<close>: if \<open>pb < pt\<close> then \<open>J = [bottom]\<close>, \<open>p_J = pb\<close> and \<open>bottom\<close>
  advances by one; if \<open>pb > pt\<close> then \<open>J = [top]\<close>, \<open>p_J = pt\<close> and \<open>top\<close> retreats by
  one; if \<open>pb = pt\<close> and \<open>bottom < top\<close> then \<open>J = [bottom, top]\<close>, \<open>p_J\<close> is the float sum
  \<open>pb + pt\<close> and both endpoints move inward; if \<open>pb = pt\<close> and \<open>bottom = top\<close> then
  \<open>J = [bottom]\<close>, \<open>p_J = pb\<close> and \<open>bottom\<close> advances. This holds for every rounding
  function and every vector of point masses.
\<close>

theorem tie_break_policy:
  assumes "body rnd pmf s = Inr s'"
    and "getitem pmf (bottom s) = Inr pb" and "getitem pmf (top_v s) = Inr pt"
  shows "(pb < pt \<longrightarrow> J s' = [bottom s] \<and> p_J s' = pb \<and>
       bottom s' = bottom s + 1 \<and> top_v s' = top_v s) \<and>
    (pb > pt \<longrightarrow> J s' = [top_v s] \<and> p_J s' = pt \<and>
       bottom s' = bottom s \<and> top_v s' = top_v s - 1) \<and>
    (pb = pt \<and> bottom s < top_v s \<longrightarrow> J s' = [bottom s, top_v s] \<and> p_J s' = rnd (pb + pt) \<and>
       bottom s' = bottom s + 1 \<and> top_v s' = top_v s - 1) \<and>
    (pb = pt \<and> bottom s = top_v s \<longrightarrow> J s' = [bottom s] \<and> p_J s' = pb \<and>
       bottom s' = bottom s + 1 \<and> top_v s' = top_v s)"
proof -
  from assms(1) obtain pb' pt' l where "getitem pmf (bottom s) = Inr pb'"
    and "getitem pmf (top_v s) = Inr pt'"
    and "s' = (select rnd pb' pt' s)
           \<lparr>p_tail := rnd (p_tail s + p_J (select rnd pb' pt' s)), posout := l\<rparr>"
    by (rule body_Inr)
  with assms(2,3) have "s' = (select rnd pb pt s)
           \<lparr>p_tail := rnd (p_tail s + p_J (select rnd pb pt s)), posout := l\<rparr>"
    by simp
  then show ?thesis
    by (simp add: select_def)
qed

theorem tie_break_policy_witness:
  "body exact [2 / 9, 5 / 9, 2 / 9, 0, 0, 0]
     \<lparr>bottom = 0, top_v = 2, J = [3], p_J = 0, p_tail = 0, posout = [0, 1, 2]\<rparr>
   = Inr \<lparr>bottom = 1, top_v = 1, J = [0, 2], p_J = 4 / 9, p_tail = 4 / 9, posout = [1]\<rparr> \<and>
   getitem [2 / 9, 5 / 9, 2 / 9, 0, 0, 0 :: real] 0 = Inr (2 / 9) \<and>
   getitem [2 / 9, 5 / 9, 2 / 9, 0, 0, 0 :: real] 2 = Inr (2 / 9) \<and>
   J \<lparr>bottom = 1, top_v = 1, J = [0, 2], p_J = 4 / 9, p_tail = 4 / 9, posout = [1]\<rparr>
     = [0, 2]"
proof -
  have h: "body exact [2 / 9, 5 / 9, 2 / 9, 0, 0, 0]
     \<lparr>bottom = 0, top_v = 2, J = [3], p_J = 0, p_tail = 0, posout = [0, 1, 2]\<rparr>
   = Inr \<lparr>bottom = 1, top_v = 1, J = [0, 2], p_J = 4 / 9, p_tail = 4 / 9, posout = [1]\<rparr>"
    by (simp add: body_def getitem_def select_def list_remove_def exact_def)
  have gb: "getitem [2 / 9, 5 / 9, 2 / 9, 0, 0, 0 :: real]
      (bottom \<lparr>bottom = 0, top_v = 2, J = [3], p_J = 0, p_tail = 0, posout = [0, 1, 2]\<rparr>)
      = Inr (2 / 9)"
    by (simp add: getitem_def)
  have gt: "getitem [2 / 9, 5 / 9, 2 / 9, 0, 0, 0 :: real]
      (top_v \<lparr>bottom = 0, top_v = 2, J = [3], p_J = 0, p_tail = 0, posout = [0, 1, 2]\<rparr>)
      = Inr (2 / 9)"
    by (simp add: getitem_def)
  from tie_break_policy [OF h gb gt] h gb gt show ?thesis
    by simp
qed

text \<open>
  C2 (as corrected). The returned \<open>gamma\<close> is the probability that the test does
  \<^emph>\<open>not\<close> reject on \<open>J\<close>, as the docstring of the source says. For every
  \<open>0 \<le> G \<le> N\<close>, \<open>0 \<le> n \<le> N\<close> and every \<open>alpha\<close> on which \<^verbatim>\<open>fisher_accept\<close> returns
  \<open>(I, J, gamma)\<close>, in exact arithmetic the point masses of \<open>I\<close> plus \<open>gamma\<close> times the mass
  of \<open>J\<close> equal \<open>1 - alpha\<close>: the test that never rejects on \<open>I\<close>, accepts with probability
  \<open>gamma\<close> on \<open>J\<close> and rejects elsewhere has rejection probability exactly \<open>alpha\<close>.
\<close>

theorem acceptance_probability:
  assumes "0 \<le> G" and "G \<le> N" and "0 \<le> n" and "n \<le> N"
    and "fisher_accept exact (hypergeom_pmf exact) N G n alpha = Inr (Iv, Jv, gamma)"
  shows "mass (hypergeom_pmf exact (arange n) N G n) Iv
     + gamma * mass (hypergeom_pmf exact (arange n) N G n) Jv = 1 - alpha"
proof -
  define pmf where "pmf = hypergeom_pmf exact (arange n) N G n"
  have len: "length pmf = nat (n + 1)"
    by (simp add: pmf_def length_hypergeom_pmf)
  from assms(1-4) have total: "sum_list pmf = 1"
    by (simp add: pmf_def sum_list_hypergeom_pmf)
  from assms(5) obtain s where l: "loop exact pmf alpha (init n) = Inr s"
    and f: "finish exact alpha s = Inr (Iv, Jv, gamma)"
    by (auto simp: fisher_accept_def pmf_def split: sum.splits)
  from assms(3) have "- 1 \<le> n"
    by simp
  from loop_accounted [OF this len l] have a: "accounted pmf s"
    by simp
  from f have nz: "p_J s \<noteq> 0" and Iv: "Iv = posout s" and Jv: "Jv = J s"
    and g: "gamma = (p_tail s - alpha) / p_J s"
    by (auto simp: finish_def exact_def split: if_splits)
  from a total have "mass pmf Iv = 1 - p_tail s" and "mass pmf Jv = p_J s"
    by (simp_all add: accounted_def Iv Jv)
  with nz g have "mass pmf Iv + gamma * mass pmf Jv = 1 - alpha"
    by simp
  then show ?thesis
    by (simp add: pmf_def)
qed

text \<open>
  C2 as stated takes \<open>gamma\<close> for the rejection probability on \<open>J\<close>, so that the masses of
  \<open>I\<close> plus \<open>(1 - gamma)\<close> times the mass of \<open>J\<close> would be \<open>1 - alpha\<close>. For \<open>N = 10\<close>,
  \<open>G = 2\<close>, \<open>n = 5\<close>, \<open>alpha = 1/20\<close> the result is \<open>I = [1]\<close>, \<open>J = [0, 2]\<close>, \<open>gamma = 71/80\<close>,
  and that sum is \<open>5/9 + 9/80 \<cdot> 4/9 = 109/180\<close>, not \<open>19/20\<close>.
\<close>

theorem boundary_probability_counterexample:
  "fisher_accept exact (hypergeom_pmf exact) 10 2 5 (1 / 20) = Inr ([1], [0, 2], 71 / 80) \<and>
   mass (hypergeom_pmf exact (arange 5) 10 2 5) [1]
     + (1 - 71 / 80) * mass (hypergeom_pmf exact (arange 5) 10 2 5) [0, 2] \<noteq> 1 - 1 / 20"
  by (simp add: accept_10_2_5_twentieth hypergeom_10_2_5 mass_def)

theorem acceptance_probability_witness:
  "(0::int) \<le> 2 \<and> (2::int) \<le> 10 \<and> (0::int) \<le> 5 \<and> (5::int) \<le> 10 \<and>
   fisher_accept exact (hypergeom_pmf exact) 10 2 5 (1 / 20) = Inr ([1], [0, 2], 71 / 80) \<and>
   mass (hypergeom_pmf exact (arange 5) 10 2 5) [1]
     + 71 / 80 * mass (hypergeom_pmf exact (arange 5) 10 2 5) [0, 2] = 1 - 1 / 20"
  using acceptance_probability [of 2 10 5 "1 / 20" "[1]" "[0, 2]" "71 / 80"]
  by (simp add: accept_10_2_5_twentieth)


text \<open>
  C4 (as corrected). The only validation in the source is the pair of assertions of
  \<^verbatim>\<open>fisher_accept2\<close>: whenever \<open>n > N\<close> or \<open>G > N\<close> it raises \<^verbatim>\<open>AssertionError\<close> before
  any computation (so \<open>G = 11\<close>, \<open>N = 10\<close> is rejected), and whenever \<open>n < N\<close> and \<open>G < N\<close> it
  behaves as \<^verbatim>\<open>fisher_accept\<close>, which validates nothing and never raises
  \<^verbatim>\<open>AssertionError\<close>. Neither function checks \<open>alpha\<close> or the signs of \<open>N\<close>, \<open>G\<close>, \<open>n\<close>.
\<close>

theorem assertions_only:
  "(N < n \<or> N < G \<longrightarrow> fisher_accept2 rnd hpmf N G n alpha = Inl AssertionError) \<and>
   (n < N \<and> G < N \<longrightarrow>
      fisher_accept2 rnd hpmf N G n alpha = fisher_accept rnd hpmf N G n alpha) \<and>
   fisher_accept rnd hpmf N G n alpha \<noteq> Inl AssertionError"
proof -
  have 1: "fisher_accept rnd hpmf N G n alpha \<noteq> Inl AssertionError"
  proof (cases "loop rnd (hpmf (arange n) N G n) alpha (init n)")
    case (Inl e)
    with loop_error [OF Inl] show ?thesis
      by (auto simp: fisher_accept_def)
  next
    case (Inr s)
    then show ?thesis
      by (simp add: fisher_accept_def finish_def)
  qed
  have 2: "fisher_accept2 rnd hpmf N G n alpha = fisher_accept rnd hpmf N G n alpha"
    if "n < N" "G < N"
    using that by (simp add: fisher_accept2_def fisher_accept_def)
  have 3: "fisher_accept2 rnd hpmf N G n alpha = Inl AssertionError" if "N < n \<or> N < G"
    using that by (auto simp: fisher_accept2_def)
  from 1 2 3 show ?thesis
    by blast
qed

text \<open>
  C4 as stated fails: \<open>alpha = 2\<close> is outside \<open>(0, 1)\<close>, and for \<open>N = 10\<close>, \<open>G = 2\<close>, \<open>n = 5\<close>
  neither function rejects it before computing. Both run the loop, which removes all
  outcomes and goes on until \<^verbatim>\<open>posout.remove\<close> raises \<^verbatim>\<open>ValueError\<close>.
\<close>

theorem validation_counterexample:
  "\<not> spec_precondition 10 2 5 2 \<and>
   fisher_accept2 exact (hypergeom_pmf exact) 10 2 5 2 = Inl ValueError \<and>
   fisher_accept exact (hypergeom_pmf exact) 10 2 5 2 = Inl ValueError"
  by (simp add: spec_precondition_def accept2_10_2_5_two accept_10_2_5_two)

theorem assertions_only_witness:
  "(10 :: int) < 11 \<and>
   fisher_accept2 exact (hypergeom_pmf exact) 10 11 6 (1 / 20) = Inl AssertionError \<and>
   (5 :: int) < 10 \<and> (2 :: int) < 10 \<and>
   fisher_accept2 exact (hypergeom_pmf exact) 10 2 5 (1 / 20) = Inr ([1], [0, 2], 71 / 80)"
  using assertions_only [of 10 6 11 exact "hypergeom_pmf exact" "1 / 20"]
    assertions_only [of 10 5 2 exact "hypergeom_pmf exact" "1 / 20"]
  by (simp add: accept_10_2_5_twentieth)

text \<open>
  C5. The removal loop of \<^verbatim>\<open>fisher_accept\<close> always terminates (the function \<open>loop\<close> is
  total), and it completes at most \<open>n + 1\<close> iterations, because each completed iteration
  removes at least one outcome from \<open>posout\<close>; this holds for every rounding, every vector
  of point masses and every \<open>alpha\<close>. For every \<open>0 \<le> G \<le> N\<close>, \<open>0 \<le> n \<le> N\<close> and \<open>alpha < 1\<close>,
  with exact point masses, the loop moreover ends without an exception, so every iteration
  it begins is completed.
\<close>

theorem loop_terminates:
  "loop_count rnd pmf alpha (init n) \<le> nat (n + 1) \<and>
   (0 \<le> G \<and> G \<le> N \<and> 0 \<le> n \<and> n \<le> N \<and> alpha < 1 \<longrightarrow>
      (\<exists>s. loop exact (hypergeom_pmf exact (arange n) N G n) alpha (init n) = Inr s))"
proof -
  have 1: "loop_count rnd pmf alpha (init n) \<le> nat (n + 1)"
    using loop_count_bound [of rnd pmf alpha "init n"] by (simp add: init_def arange_def)
  have 2: "\<exists>s. loop exact (hypergeom_pmf exact (arange n) N G n) alpha (init n) = Inr s"
    if "0 \<le> G" "G \<le> N" "0 \<le> n" "n \<le> N" "alpha < 1"
  proof -
    define h where "h = hypergeom_pmf exact (arange n) N G n"
    have len: "length h = nat (n + 1)"
      by (simp add: h_def length_hypergeom_pmf)
    from that have total: "alpha \<le> sum_list h"
      by (simp add: h_def sum_list_hypergeom_pmf)
    from that(3) have r: "region n (init n)"
      by (simp add: region_init)
    from loop_total [OF len total r accounted_init [OF len]] show ?thesis
      by (simp add: h_def)
  qed
  from 1 2 show ?thesis
    by blast
qed

theorem loop_terminates_witness:
  "(0::int) \<le> 2 \<and> (2::int) \<le> 10 \<and> (0::int) \<le> 5 \<and> (5::int) \<le> 10 \<and> (1 / 20 :: real) < 1 \<and>
   (\<exists>s. loop exact (hypergeom_pmf exact (arange 5) 10 2 5) (1 / 20) (init 5) = Inr s) \<and>
   loop_count exact (hypergeom_pmf exact (arange 5) 10 2 5) (1 / 20) (init 5) \<le> nat (5 + 1)"
  using loop_terminates [of exact "hypergeom_pmf exact (arange 5) 10 2 5" "1 / 20" 5 2 10]
  by simp

text \<open>
  C6 (as corrected). For all \<open>N\<close>, \<open>G\<close>, \<open>n\<close> and \<open>alpha1 < alpha2\<close> on which
  \<^verbatim>\<open>fisher_accept\<close> returns, the set \<open>I\<close> returned for \<open>alpha1\<close> contains the set \<open>I\<close>
  returned for \<open>alpha2\<close>: decreasing \<open>alpha\<close> can only grow \<open>I\<close>, never shrink it. This
  holds for every rounding function and every supplier of point masses.
\<close>

theorem acceptance_set_antimono:
  assumes "alpha1 < alpha2"
    and "fisher_accept rnd hpmf N G n alpha1 = Inr (I1, J1, gamma1)"
    and "fisher_accept rnd hpmf N G n alpha2 = Inr (I2, J2, gamma2)"
  shows "set I2 \<subseteq> set I1"
proof -
  define pmf where "pmf = hpmf (arange n) N G n"
  from assms(2) obtain s1 where l1: "loop rnd pmf alpha1 (init n) = Inr s1"
    and I1: "I1 = posout s1"
    by (auto simp: fisher_accept_def finish_def pmf_def split: sum.splits if_splits)
  from assms(3) obtain s2 where l2: "loop rnd pmf alpha2 (init n) = Inr s2"
    and I2: "I2 = posout s2"
    by (auto simp: fisher_accept_def finish_def pmf_def split: sum.splits if_splits)
  from assms(1) have "alpha1 \<le> alpha2"
    by simp
  from loop_antimono [OF this l1 l2] I1 I2 show ?thesis
    by simp
qed

text \<open>
  C6 as stated ends with the sentence of the specification, that decreasing \<open>alpha\<close> can
  only shrink \<open>I\<close>. For \<open>N = 10\<close>, \<open>G = 2\<close>, \<open>n = 5\<close>, decreasing \<open>alpha\<close> from \<open>1/2\<close> to \<open>1/20\<close>
  grows \<open>I\<close> from \<open>[]\<close> to \<open>[1]\<close>.
\<close>

theorem shrinking_counterexample:
  "fisher_accept exact (hypergeom_pmf exact) 10 2 5 (1 / 20) = Inr ([1], [0, 2], 71 / 80) \<and>
   fisher_accept exact (hypergeom_pmf exact) 10 2 5 (1 / 2) = Inr ([], [1], 9 / 10) \<and>
   (1 / 20 :: real) < 1 / 2 \<and> \<not> set [1 :: int] \<subseteq> set []"
  by (simp add: accept_10_2_5_twentieth accept_10_2_5_half)

theorem acceptance_set_antimono_witness:
  "(1 / 20 :: real) < 1 / 2 \<and>
   fisher_accept exact (hypergeom_pmf exact) 10 2 5 (1 / 20) = Inr ([1], [0, 2], 71 / 80) \<and>
   fisher_accept exact (hypergeom_pmf exact) 10 2 5 (1 / 2) = Inr ([], [1], 9 / 10) \<and>
   set ([] :: int list) \<subseteq> set [1]"
  using acceptance_set_antimono [of "1 / 20" "1 / 2" exact "hypergeom_pmf exact" 10 2 5
      "[1]" "[0, 2]" "71 / 80" "[]" "[1]" "9 / 10"]
  by (simp add: accept_10_2_5_twentieth accept_10_2_5_half)

text \<open>
  C7 (as corrected). The source has no guard against exhaustion and no
  \<^verbatim>\<open>ConstructionError\<close>. Whenever the loop reaches a state with \<open>bottom > top\<close> while
  \<open>p_tail < alpha\<close> still holds, it begins another iteration, which raises
  \<^verbatim>\<open>IndexError\<close> when \<open>bottom = n + 1\<close> (the read \<^verbatim>\<open>pmf[bottom]\<close> is out of range) and
  \<^verbatim>\<open>ValueError\<close> otherwise (\<^verbatim>\<open>posout.remove\<close> on the empty list), and \<^verbatim>\<open>fisher_accept\<close>
  ends with that exception.
\<close>

theorem exhaustion_raises:
  assumes "- 1 \<le> n" and "length (hpmf (arange n) N G n) = nat (n + 1)"
    and "reachable rnd (hpmf (arange n) N G n) alpha n s"
    and "top_v s < bottom s" and "p_tail s < alpha"
  shows "fisher_accept rnd hpmf N G n alpha =
    Inl (if bottom s = n + 1 then IndexError else ValueError)"
proof -
  from reachable_region [OF assms(3,1,2)] have "region n s" .
  from loop_exhausted [OF this assms(4,2,5)] reachable_loop [OF assms(3)]
  show ?thesis
    by (simp add: fisher_accept_def)
qed

text \<open>
  C7 as stated fails. For \<open>N = 1\<close>, \<open>G = 0\<close>, \<open>n = 0\<close> and \<open>alpha = 2\<close> the first iteration
  removes the only outcome and leaves \<open>bottom = 1 > top = 0\<close> with \<open>p_tail = 1 < 2\<close>; the
  loop goes on, reads \<^verbatim>\<open>pmf[1]\<close> out of range, and the call ends with \<^verbatim>\<open>IndexError\<close>.
  It fails on valid input too, in binary64 arithmetic with correctly rounded point masses:
  for \<open>N = 36\<close>, \<open>G = 17\<close>, \<open>n = 12\<close> and \<^verbatim>\<open>alpha = 0.9999999999999999\<close> the thirteen masses
  add up to \<open>1 - 2\<^sup>-\<^sup>5\<^sup>2\<close>, which is less than \<open>alpha = 1 - 2\<^sup>-\<^sup>5\<^sup>3\<close>; the loop begins a
  fourteenth iteration, and \<^verbatim>\<open>posout.remove\<close> raises \<^verbatim>\<open>ValueError\<close>.
\<close>

theorem exhaustion_counterexample:
  "body exact (hypergeom_pmf exact (arange 0) 1 0 0) (init 0) =
     Inr \<lparr>bottom = 1, top_v = 0, J = [0], p_J = 1, p_tail = 1, posout = []\<rparr> \<and>
   fisher_accept exact (hypergeom_pmf exact) 1 0 0 2 = Inl IndexError \<and>
   spec_precondition 36 17 12 (double (9999999999999999 / 10000000000000000)) \<and>
   fisher_accept double (hypergeom_pmf double) 36 17 12
     (double (9999999999999999 / 10000000000000000)) = Inl ValueError"
  by (simp add: hypergeom_1_0_0 body_1_0_0 accept_1_0_0_two double_alpha_exh
      accept_double_36_17_12 spec_precondition_def)

theorem exhaustion_raises_witness:
  "(- 1 :: int) \<le> 0 \<and> length (hypergeom_pmf exact (arange 0) 1 0 0) = nat (0 + 1) \<and>
   reachable exact (hypergeom_pmf exact (arange 0) 1 0 0) 2 0
     \<lparr>bottom = 1, top_v = 0, J = [0], p_J = 1, p_tail = 1, posout = []\<rparr> \<and>
   fisher_accept exact (hypergeom_pmf exact) 1 0 0 2 = Inl IndexError"
proof -
  have 1: "(- 1 :: int) \<le> 0"
    by simp
  have 2: "length (hypergeom_pmf exact (arange 0) 1 0 0) = nat (0 + 1)"
    by (simp add: hypergeom_1_0_0)
  have "p_tail (init 0) < 2"
    by (simp add: init_def)
  with reachable.start have 3: "reachable exact (hypergeom_pmf exact (arange 0) 1 0 0) 2 0
     \<lparr>bottom = 1, top_v = 0, J = [0], p_J = 1, p_tail = 1, posout = []\<rparr>"
    by (rule reachable.step) (simp add: hypergeom_1_0_0 body_1_0_0)
  from exhaustion_raises [where n = 0 and hpmf = "hypergeom_pmf exact" and N = 1 and G = 0
      and rnd = exact and alpha = 2, OF 1 2 3] 1 2 3 show ?thesis
    by simp
qed




section \<open>Claims about chisq.py\<close>

text \<open>
  C9 (as corrected). The three functions compute one formula: in exact arithmetic,
  whenever \<^verbatim>\<open>chisq_1\<close> and \<^verbatim>\<open>chisq_3\<close> return and \<^verbatim>\<open>chisq_2\<close> returns a finite number on
  the same two samples, the three values are equal, each being the sum of
  \<open>(O\<^sub>k - E\<^sub>k)\<^sup>2 / E\<^sub>k\<close> over the distinct values of the pooled sample.
\<close>

theorem chisq_variants_agree:
  assumes "chisq_1 exact x y = Inr a" and "chisq_2 x y = Fin b" and "chisq_3 exact x y = Inr c"
  shows "a = b \<and> b = c \<and> c = chi_square x y"
proof -
  have "x \<noteq> []"
  proof
    assume "x = []"
    with chisq_3_Nil [of y] assms(3) show False
      by auto
  qed
  from chisq_1_exact [OF this, of y] chisq_2_eq [OF this, of y] chisq_3_exact [OF this, of y]
    assms
  show ?thesis
    by simp
qed

text \<open>
  C9 as stated fails on the floats the functions return: \<^verbatim>\<open>chisq_1\<close> adds the terms in
  the sorted order of the values, \<^verbatim>\<open>chisq_3\<close> in the order of their first occurrence, and
  float addition is not associative. For \<open>x = [3, 3]\<close> and \<open>y = [1, 2, 3]\<close>, in binary64
  arithmetic, \<^verbatim>\<open>chisq_1\<close> returns \<open>1.3333333333333335\<close> and \<^verbatim>\<open>chisq_3\<close> returns
  \<open>1.3333333333333337\<close>.
\<close>

theorem chisq_float_counterexample:
  "chisq_1 double [3, 3] [1, 2, 3 :: int] = Inr (3002399751580331 / 2251799813685248) \<and>
   chisq_3 double [3, 3] [1, 2, 3 :: int] = Inr (6004799503160663 / 4503599627370496) \<and>
   chisq_1 double [3, 3] [1, 2, 3 :: int] \<noteq> chisq_3 double [3, 3] [1, 2, 3 :: int]"
  by (simp add: chisq_1_double chisq_3_double)

theorem chisq_variants_agree_witness:
  "chisq_1 exact fixtest_x fixtest_y = Inr (143 / 100) \<and>
   chisq_2 fixtest_x fixtest_y = Fin (143 / 100) \<and>
   chisq_3 exact fixtest_x fixtest_y = Inr (143 / 100) \<and>
   chi_square fixtest_x fixtest_y = 143 / 100"
  using chisq_variants_agree [OF chisq_1_fixtest chisq_2_fixtest chisq_3_fixtest]
    chisq_1_fixtest chisq_2_fixtest chisq_3_fixtest
  by simp



end
